theory Spec2Isabelle
  imports Complex_Main "HOL-Library.Multiset"
begin

section \<open>Values and rows\<close>

text \<open>
  The table holds JavaScript objects whose cells are primitive values: the spreadsheet
  library yields strings, numbers and booleans, a key that is absent reads as
  \<open>undefined\<close>, and the edit form writes strings. A number is one of the three
  special values or \<open>Fin q\<close>, with \<open>q\<close> the rational value of the double; the two
  zeros are one value. Strings are lists of
  characters, one \<open>char\<close> per code unit (the Latin-1 range).
\<close>

datatype jsnum = NaN | NegInf | Fin rat | PosInf

datatype jsval = JUndefined | JNull | JBool bool | JNum jsnum | JStr string

text \<open>
  A row object: \<open>id\<close> (a number, here its exact value), the data columns in key order,
  and \<open>_originalData\<close>, the raw sheet row kept by the parser (absent on rows made by
  \<open>createNewRow\<close>). The table never reads \<open>id\<close> or \<open>_originalData\<close> through a header,
  so they are kept apart from the columns.
\<close>

record row =
  row_id :: rat
  cells :: "(string \<times> jsval) list"
  originalData :: "(string \<times> jsval) list option"

text \<open>\<open>obj[key]\<close> on a plain object: the value of the key, \<open>undefined\<close> when it is absent.\<close>

definition getProp :: "(string \<times> jsval) list \<Rightarrow> string \<Rightarrow> jsval" where
  "getProp obj k = (case map_of obj k of None \<Rightarrow> JUndefined | Some v \<Rightarrow> v)"

definition getCell :: "row \<Rightarrow> string \<Rightarrow> jsval" where
  "getCell r header = getProp (cells r) header"

section \<open>JavaScript primitives used by the table and the parser\<close>

text \<open>
  Truthiness, \<open>a || b\<close> and \<open>String(v)\<close>. The decimal text of a number is the engine's
  (the shortest text that reads back as the same double); it is the parameter \<open>nts\<close>
  of every function that needs it, and no result below depends on it.
\<close>

definition truthy :: "jsval \<Rightarrow> bool" where
  "truthy v =
     (case v of JUndefined \<Rightarrow> False | JNull \<Rightarrow> False | JBool b \<Rightarrow> b
      | JNum n \<Rightarrow> n \<noteq> NaN \<and> n \<noteq> Fin 0 | JStr s \<Rightarrow> s \<noteq> [])"

definition orElse :: "jsval \<Rightarrow> jsval \<Rightarrow> jsval" where
  "orElse a b = (if truthy a then a else b)"

fun toString :: "(jsnum \<Rightarrow> string) \<Rightarrow> jsval \<Rightarrow> string" where
  "toString nts JUndefined = ''undefined''"
| "toString nts JNull = ''null''"
| "toString nts (JBool b) = (if b then ''true'' else ''false'')"
| "toString nts (JNum n) = nts n"
| "toString nts (JStr s) = s"

text \<open>
  \<open>toLowerCase\<close> on the Latin-1 range: the capital letters \<open>A\<close> to \<open>Z\<close> and
  \<open>U+00C0\<close> to \<open>U+00DE\<close> (but the multiplication sign \<open>U+00D7\<close>) get bit 5 set.
\<close>

fun toLowerChar :: "char \<Rightarrow> char" where
  "toLowerChar (Char b0 b1 b2 b3 b4 b5 b6 b7) =
     (let n = (of_char (Char b0 b1 b2 b3 b4 b5 b6 b7) :: nat)
      in if (65 \<le> n \<and> n \<le> 90) \<or> (192 \<le> n \<and> n \<le> 222 \<and> n \<noteq> 215)
         then Char b0 b1 b2 b3 b4 True b6 b7
         else Char b0 b1 b2 b3 b4 b5 b6 b7)"

definition toLowerCase :: "string \<Rightarrow> string" where
  "toLowerCase s = map toLowerChar s"



text \<open>
  Rounding to the nearest double, ties to the even significand. For \<open>x\<close> other than zero,
  \<open>e\<close> is the exponent of its binade (\<open>2 ^ e \<le> |x| < 2 ^ (e + 1)\<close>) and \<open>2 ^ k\<close> the
  distance between neighbouring doubles there, \<open>2 ^ (- 1074)\<close> at least; a result of
  \<open>2 ^ 1024\<close> or more is infinite.
\<close>

function bitLength :: "int \<Rightarrow> nat" where
  "bitLength n = (if n \<le> 0 then 0 else Suc (bitLength (n div 2)))"
  by pat_completeness auto
termination
  by (relation "measure nat") auto

declare bitLength.simps [simp del]

definition roundHalfEven :: "int \<Rightarrow> int \<Rightarrow> int" where
  "roundHalfEven num den =
     (let q = num div den; r = num mod den
      in if 2 * r < den then q
         else if den < 2 * r then q + 1
         else if even q then q else q + 1)"

definition roundToDouble :: "rat \<Rightarrow> jsnum" where
  "roundToDouble x =
     (let (a, b) = quotient_of x; m = \<bar>a\<bar>
      in if m = 0 then Fin 0
         else
           let d = int (bitLength m) - int (bitLength b);
               e = (if (if 0 \<le> d then b * 2 ^ nat d \<le> m else b \<le> m * 2 ^ nat (- d))
                    then d else d - 1);
               k = max e (- 1022) - 52;
               n = (if 0 \<le> k then roundHalfEven m (b * 2 ^ nat k)
                    else roundHalfEven (m * 2 ^ nat (- k)) b);
               v = (if 0 \<le> k then of_int n * 2 ^ nat k else of_int n / 2 ^ nat (- k) :: rat)
           in if (if e < 1023 then False else 2 ^ 1024 \<le> v)
              then (if a < 0 then NegInf else PosInf)
              else Fin (if a < 0 then - v else v))"

text \<open>
  \<open>Number(s)\<close> on a string: white space is trimmed, the empty text is \<open>0\<close>, then a
  hexadecimal, octal or binary integer literal, or an optionally signed decimal literal
  (\<open>Infinity\<close>, digits with an optional fraction and exponent); anything else is
  \<open>NaN\<close>. The value of a literal is rounded to the nearest double. \<open>digitValue\<close> is 16
  on a character that is no digit of any of the bases.
\<close>

definition isWhiteSpace :: "char \<Rightarrow> bool" where
  "isWhiteSpace c = ((of_char c :: nat) \<in> {9, 10, 11, 12, 13, 32, 160})"

definition trim :: "string \<Rightarrow> string" where
  "trim s = rev (dropWhile isWhiteSpace (rev (dropWhile isWhiteSpace s)))"

definition isDigit :: "char \<Rightarrow> bool" where
  "isDigit c = (48 \<le> (of_char c :: nat) \<and> (of_char c :: nat) \<le> 57)"

definition digitValue :: "char \<Rightarrow> nat" where
  "digitValue c =
     (let n = (of_char c :: nat)
      in if 48 \<le> n \<and> n \<le> 57 then n - 48
         else if 97 \<le> n \<and> n \<le> 102 then n - 87
         else if 65 \<le> n \<and> n \<le> 70 then n - 55
         else 16)"

definition radixValue :: "nat \<Rightarrow> string \<Rightarrow> int" where
  "radixValue b ds = foldl (\<lambda>acc c. acc * int b + int (digitValue c)) 0 ds"

definition parseRadix :: "nat \<Rightarrow> string \<Rightarrow> jsnum" where
  "parseRadix b ds =
     (if ds \<noteq> [] \<and> list_all (\<lambda>c. digitValue c < b) ds then roundToDouble (of_int (radixValue b ds))
      else NaN)"

definition parseExponent :: "string \<Rightarrow> int option" where
  "parseExponent s =
     (case s of
        [] \<Rightarrow> Some 0
      | c # t \<Rightarrow>
          if c = CHR ''e'' \<or> c = CHR ''E'' then
            (let (neg, ds) = (case t of [] \<Rightarrow> (False, [])
                               | d # u \<Rightarrow> if d = CHR ''-'' then (True, u)
                                          else if d = CHR ''+'' then (False, u) else (False, t))
             in if ds \<noteq> [] \<and> list_all isDigit ds
                then Some (if neg then - radixValue 10 ds else radixValue 10 ds)
                else None)
          else None)"

definition parseUnsigned :: "string \<Rightarrow> jsnum" where
  "parseUnsigned s =
     (if s = ''Infinity'' then PosInf
      else
        let ip = takeWhile isDigit s;
            r1 = dropWhile isDigit s;
            (fp, r2) = (case r1 of [] \<Rightarrow> ([], r1)
                        | c # t \<Rightarrow> if c = CHR ''.'' then (takeWhile isDigit t, dropWhile isDigit t)
                                   else ([], r1))
        in if ip = [] \<and> fp = [] then NaN
           else (case parseExponent r2 of
                   None \<Rightarrow> NaN
                 | Some e \<Rightarrow>
                     let m = (of_int (radixValue 10 ip) :: rat)
                               + of_int (radixValue 10 fp) / 10 ^ length fp
                     in roundToDouble (if 0 \<le> e then m * 10 ^ nat e else m / 10 ^ nat (- e))))"

fun negate :: "jsnum \<Rightarrow> jsnum" where
  "negate NaN = NaN"
| "negate NegInf = PosInf"
| "negate PosInf = NegInf"
| "negate (Fin q) = Fin (- q)"

definition stringToNumber :: "string \<Rightarrow> jsnum" where
  "stringToNumber s =
     (case trim s of
        [] \<Rightarrow> Fin 0
      | c # t \<Rightarrow>
          if c = CHR ''0'' \<and> t \<noteq> [] \<and> hd t \<in> {CHR ''x'', CHR ''X''} then parseRadix 16 (tl t)
          else if c = CHR ''0'' \<and> t \<noteq> [] \<and> hd t \<in> {CHR ''o'', CHR ''O''} then parseRadix 8 (tl t)
          else if c = CHR ''0'' \<and> t \<noteq> [] \<and> hd t \<in> {CHR ''b'', CHR ''B''} then parseRadix 2 (tl t)
          else if c = CHR ''-'' then negate (parseUnsigned t)
          else if c = CHR ''+'' then parseUnsigned t
          else parseUnsigned (c # t))"

fun toNumber :: "jsval \<Rightarrow> jsnum" where
  "toNumber JUndefined = NaN"
| "toNumber JNull = Fin 0"
| "toNumber (JBool b) = (if b then Fin 1 else Fin 0)"
| "toNumber (JNum n) = n"
| "toNumber (JStr s) = stringToNumber s"

definition isNaN :: "jsval \<Rightarrow> bool" where
  "isNaN v = (toNumber v = NaN)"

text \<open>
  \<open>a - b\<close> on numbers, the exact difference of two doubles being rounded again, and the
  tests \<open>x < 0\<close> and \<open>x > 0\<close> that a sort makes on a comparator's result (\<open>NaN\<close>
  passes neither).
\<close>

fun subtract :: "jsnum \<Rightarrow> jsnum \<Rightarrow> jsnum" where
  "subtract NaN b = NaN"
| "subtract a NaN = NaN"
| "subtract (Fin a) (Fin b) = roundToDouble (a - b)"
| "subtract (Fin a) PosInf = NegInf"
| "subtract (Fin a) NegInf = PosInf"
| "subtract PosInf PosInf = NaN"
| "subtract PosInf b = PosInf"
| "subtract NegInf NegInf = NaN"
| "subtract NegInf b = NegInf"

fun isNegative :: "jsnum \<Rightarrow> bool" where
  "isNegative NegInf = True"
| "isNegative (Fin q) = (q < 0)"
| "isNegative n = False"

fun isPositive :: "jsnum \<Rightarrow> bool" where
  "isPositive PosInf = True"
| "isPositive (Fin q) = (0 < q)"
| "isPositive n = False"

text \<open>\<open>v == null\<close>: true of \<open>null\<close> and \<open>undefined\<close> only.\<close>

definition eqNull :: "jsval \<Rightarrow> bool" where
  "eqNull v = (v = JNull \<or> v = JUndefined)"

text \<open>
  \<open>Array.prototype.sort\<close> with a comparator. The language fixes the result only for a
  consistent comparator: it is then the stable sorted list, whatever the engine. For any
  other comparator, and the comparator of the table is one as soon as two rows lack a
  value, the result is the engine's. Two stable insertion sorts stand for the engines
  here; both take the elements in array order and differ in how they ask.
  \<^item> \<open>NewFirst\<close> asks \<open>comparefn(x, y)\<close> with \<open>x\<close> the element being placed and \<open>y\<close> one
    placed before, the argument order of V8: \<open>x\<close> goes in front of the first \<open>y\<close> for which
    the answer is negative, and to the end when there is none.
  \<^item> \<open>PlacedFirst\<close> asks \<open>comparefn(y, x)\<close>, the argument order of SpiderMonkey: coming
    from the end, \<open>x\<close> passes every \<open>y\<close> for which the answer is positive and stops behind
    the first one for which it is not. \<open>insertBehind\<close> works on the placed elements in
    reverse, the last one first.

  Under a comparator that strictly orders the list the two agree
  (\<open>arraySort_engines_agree\<close> below). On a comparator that is not consistent they are two
  of the results that the language allows, and an engine may return a third (its search
  for the place of \<open>x\<close> need not be linear); what is proved for such a comparator is proved
  for both and stated for no more than these two.
\<close>

datatype sortEngine = NewFirst | PlacedFirst

fun insertSorted :: "('a \<Rightarrow> 'a \<Rightarrow> jsnum) \<Rightarrow> 'a \<Rightarrow> 'a list \<Rightarrow> 'a list" where
  "insertSorted comparefn x [] = [x]"
| "insertSorted comparefn x (y # ys) =
     (if isNegative (comparefn x y) then x # y # ys else y # insertSorted comparefn x ys)"

fun insertBehind :: "('a \<Rightarrow> 'a \<Rightarrow> jsnum) \<Rightarrow> 'a \<Rightarrow> 'a list \<Rightarrow> 'a list" where
  "insertBehind comparefn x [] = [x]"
| "insertBehind comparefn x (y # ys) =
     (if isPositive (comparefn y x) then y # insertBehind comparefn x ys else x # y # ys)"

definition arraySort :: "sortEngine \<Rightarrow> ('a \<Rightarrow> 'a \<Rightarrow> jsnum) \<Rightarrow> 'a list \<Rightarrow> 'a list" where
  "arraySort engine comparefn xs =
     (case engine of
        NewFirst \<Rightarrow> foldl (\<lambda>placed x. insertSorted comparefn x placed) [] xs
      | PlacedFirst \<Rightarrow> rev (foldl (\<lambda>placed x. insertBehind comparefn x placed) [] xs))"

text \<open>
  \<open>Array.prototype.slice(start, stop)\<close>: a negative index counts from the end, and both
  are clamped to the array.
\<close>

definition slice :: "int \<Rightarrow> int \<Rightarrow> 'a list \<Rightarrow> 'a list" where
  "slice start stop xs =
     (let len = int (length xs);
          k = (if start < 0 then max (len + start) 0 else min start len);
          final = (if stop < 0 then max (len + stop) 0 else min stop len)
      in take (nat (final - k)) (drop (nat k) xs))"

section \<open>The table component: state and row operations\<close>

datatype direction = Asc | Desc

record sortConfig =
  key :: "string option"
  direction :: direction

text \<open>
  The state of \<open>VirtualizedDataTable\<close>: the \<open>data\<close> prop (replaced as a whole through
  \<open>onDataChange\<close>) and the component's own \<open>useState\<close> cells.
\<close>

record tableState =
  data :: "row list"
  searchTerm :: string
  sortConfig :: sortConfig
  selectedRows :: "rat set"
  currentPage :: int
  itemsPerPage :: nat
  editingRow :: "row option"
  isModalOpen :: bool
  isNewRow :: bool

text \<open>
  \<open>handleSaveRow\<close>: a new row goes to the top of the table, an edited row replaces
  every row with its id; the modal closes.
\<close>

definition handleSaveRow :: "row \<Rightarrow> tableState \<Rightarrow> tableState" where
  "handleSaveRow r st =
     st\<lparr>data := (if isNewRow st then r # data st
                 else map (\<lambda>r'. if row_id r' = row_id r then r else r') (data st)),
        isModalOpen := False, editingRow := None, isNewRow := False\<rparr>"

text \<open>
  \<open>handleAddRow\<close> opens the modal on the row that \<open>createNewRow\<close> returns; the row is a
  parameter here, since its id and date come from the clock.
\<close>

definition handleAddRow :: "row \<Rightarrow> tableState \<Rightarrow> tableState" where
  "handleAddRow newRow st = st\<lparr>editingRow := Some newRow, isNewRow := True, isModalOpen := True\<rparr>"

definition handleEditRow :: "row \<Rightarrow> tableState \<Rightarrow> tableState" where
  "handleEditRow r st = st\<lparr>editingRow := Some r, isNewRow := False, isModalOpen := True\<rparr>"

text \<open>
  \<open>handleDeleteSelected\<close>: with nothing selected it only alerts; otherwise, when the user
  confirms, the selected rows are filtered out and the selection is cleared.
\<close>

definition handleDeleteSelected :: "bool \<Rightarrow> tableState \<Rightarrow> tableState" where
  "handleDeleteSelected confirmed st =
     (if selectedRows st = {} then st
      else if confirmed
        then st\<lparr>data := filter (\<lambda>r. row_id r \<notin> selectedRows st) (data st), selectedRows := {}\<rparr>
        else st)"

definition handleDeleteRow :: "bool \<Rightarrow> rat \<Rightarrow> tableState \<Rightarrow> tableState" where
  "handleDeleteRow confirmed rowId st =
     (if confirmed then st\<lparr>data := filter (\<lambda>r. row_id r \<noteq> rowId) (data st)\<rparr> else st)"

text \<open>
  \<open>handleDuplicateSelected\<close>: the selected rows, in table order, are copied with a new id
  each and the copies are put in front of the table. The new id is
  \<open>Date.now() + Math.random()\<close>; \<open>mint i\<close> stands for the value this expression takes at
  the \<open>i\<close>-th copy.
\<close>

definition duplicates :: "(nat \<Rightarrow> rat) \<Rightarrow> row list \<Rightarrow> row list" where
  "duplicates mint selected =
     map (\<lambda>(i, r). r\<lparr>row_id := mint i\<rparr>) (zip [0..<length selected] selected)"

definition handleDuplicateSelected :: "(nat \<Rightarrow> rat) \<Rightarrow> tableState \<Rightarrow> tableState" where
  "handleDuplicateSelected mint st =
     (if selectedRows st = {} then st
      else let selected = filter (\<lambda>r. row_id r \<in> selectedRows st) (data st)
           in st\<lparr>data := duplicates mint selected @ data st, selectedRows := {}\<rparr>)"

text \<open>The \<open>useState\<close> defaults of the component, over a given \<open>data\<close> prop.\<close>

definition initialState :: "row list \<Rightarrow> tableState" where
  "initialState d =
     \<lparr>data = d, searchTerm = [], sortConfig = \<lparr>key = None, direction = Asc\<rparr>,
      selectedRows = {}, currentPage = 1, itemsPerPage = 10, editingRow = None,
      isModalOpen = False, isNewRow = False\<rparr>"

section \<open>The view pipeline: filter, sort, paginate\<close>


text \<open>
  The comparator of \<open>sortedData\<close>, for the column \<open>k\<close> and a direction. \<open>lc\<close> is
  \<open>String.prototype.localeCompare\<close>, which depends on the engine's locale data.
\<close>

definition compareRows ::
  "(string \<Rightarrow> string \<Rightarrow> int) \<Rightarrow> (jsnum \<Rightarrow> string) \<Rightarrow> string \<Rightarrow> direction \<Rightarrow> row \<Rightarrow> row \<Rightarrow> jsnum" where
  "compareRows lc nts k dir a b =
     (let aValue = getCell a k; bValue = getCell b k
      in if eqNull aValue then Fin 1
         else if eqNull bValue then Fin (- 1)
         else if \<not> isNaN aValue \<and> \<not> isNaN bValue
           then (if dir = Asc then subtract (toNumber aValue) (toNumber bValue)
                 else subtract (toNumber bValue) (toNumber aValue))
         else let strA = toLowerCase (toString nts aValue);
                  strB = toLowerCase (toString nts bValue)
              in if dir = Asc then Fin (of_int (lc strA strB)) else Fin (of_int (lc strB strA)))"

text \<open>
  \<open>sortedData\<close>: without a sort key (\<open>null\<close> or the empty name) the filtered rows are
  returned as they are; otherwise a copy is sorted by the engine.
\<close>

definition sortedData ::
  "sortEngine \<Rightarrow> (string \<Rightarrow> string \<Rightarrow> int) \<Rightarrow> (jsnum \<Rightarrow> string) \<Rightarrow> sortConfig \<Rightarrow> row list
     \<Rightarrow> row list" where
  "sortedData engine lc nts cfg filtered =
     (case key cfg of
        None \<Rightarrow> filtered
      | Some k \<Rightarrow> if k = [] then filtered
                  else arraySort engine (compareRows lc nts k (direction cfg)) filtered)"

text \<open>\<open>handleSort\<close>: a click on a header sorts by it, ascending unless it was already sorted ascending by it.\<close>

definition handleSort :: "string \<Rightarrow> tableState \<Rightarrow> tableState" where
  "handleSort header st =
     st\<lparr>sortConfig :=
          \<lparr>key = Some header,
           direction = (if key (sortConfig st) = Some header \<and> direction (sortConfig st) = Asc
                        then Desc else Asc)\<rparr>\<rparr>"

text \<open>
  Pagination. \<open>Math.ceil(length / itemsPerPage)\<close> is a number: \<open>NaN\<close> or \<open>Infinity\<close>
  when the page size is zero, which the page-size selector never offers.
\<close>

definition ITEMS_PER_PAGE_OPTIONS :: "nat list" where
  "ITEMS_PER_PAGE_OPTIONS = [10, 25, 50, 100]"

definition totalPages :: "nat \<Rightarrow> nat \<Rightarrow> jsnum" where
  "totalPages len perPage =
     (if perPage = 0 then (if len = 0 then NaN else PosInf)
      else Fin (of_int \<lceil>(of_nat len :: rat) / of_nat perPage\<rceil>))"

definition startIndex :: "int \<Rightarrow> nat \<Rightarrow> int" where
  "startIndex page perPage = (page - 1) * int perPage"

definition endIndex :: "int \<Rightarrow> nat \<Rightarrow> int" where
  "endIndex page perPage = startIndex page perPage + int perPage"

definition paginatedData :: "'a list \<Rightarrow> int \<Rightarrow> nat \<Rightarrow> 'a list" where
  "paginatedData displayData page perPage =
     slice (startIndex page perPage) (endIndex page perPage) displayData"

section \<open>Ingestion: the row transformation of parseExcelFile\<close>

text \<open>
  A raw sheet row (\<open>item\<close>) is the object that \<open>sheet_to_json\<close> yields: the column titles
  of the sheet with the cell values of the row, a title being absent where the cell is empty.
  \<open>t\<close> is the value of \<open>Date.now()\<close> when the row is transformed and \<open>index\<close> its
  position in the sheet.

  The file holds two variants of the transformation. In the documented one the date column
  is copied from \<open>item['Date']\<close> as it is.
\<close>

definition transformRow :: "(jsnum \<Rightarrow> string) \<Rightarrow> rat \<Rightarrow> nat \<Rightarrow> (string \<times> jsval) list \<Rightarrow> row" where
  "transformRow nts t index item =
     \<lparr>row_id = t + of_nat index,
      cells =
        [(''CHALLAN_NO'',
            JStr (take 11 (toString nts (orElse (getProp item ''Challan Number'') (JStr []))))),
         (''A_BANCD'', orElse (getProp item ''Bank Code'') (JStr [])),
         (''A_BANKL'', orElse (getProp item ''Branch Code'') (JStr [])),
         (''CHALL_DATE'', getProp item ''Date''),
         (''ACCOUNT_CODE'', orElse (getProp item ''Account Code'') (JStr [])),
         (''CHAN_AMT'', orElse (getProp item ''Amount'') (JStr ''0'')),
         (''NOTES'', JStr (take 255 (toString nts (orElse (getProp item ''Notes'') (JStr [])))))],
      originalData = Some item\<rparr>"


text \<open>\<open>rawData.map((item, index) => ...)\<close>, with \<open>now i\<close> the clock at the \<open>i\<close>-th row.\<close>

definition transformedData ::
  "(jsnum \<Rightarrow> string) \<Rightarrow> (nat \<Rightarrow> rat) \<Rightarrow> (string \<times> jsval) list list \<Rightarrow> row list" where
  "transformedData nts now rawData =
     map (\<lambda>(index, item). transformRow nts (now index) index item)
         (zip [0..<length rawData] rawData)"




text \<open>\<open>createNewRow\<close>: \<open>t\<close> is \<open>Date.now()\<close> and \<open>dateText\<close> the text of the current date.\<close>

definition createNewRow :: "rat \<Rightarrow> string \<Rightarrow> row" where
  "createNewRow t dateText =
     \<lparr>row_id = t,
      cells =
        [(''CHALLAN_NO'', JStr []), (''A_BANCD'', JStr []), (''A_BANKL'', JStr []),
         (''CHALL_DATE'', JStr dateText), (''ACCOUNT_CODE'', JStr []), (''CHAN_AMT'', JStr ''0''),
         (''NOTES'', JStr [])],
      originalData = None\<rparr>"

section \<open>Predicates of the specification\<close>


text \<open>
  A comparator strictly orders a list when the list has no repeated element, of two
  different elements it puts exactly one before the other whichever way it is asked (a
  negative answer one way and a positive answer the other way: there are no ties), and
  "before" is transitive.
\<close>

definition strictlyOrders :: "('a \<Rightarrow> 'a \<Rightarrow> jsnum) \<Rightarrow> 'a list \<Rightarrow> bool" where
  "strictlyOrders comparefn xs \<longleftrightarrow>
     distinct xs \<and>
     (\<forall>a \<in> set xs. \<forall>b \<in> set xs.
        a \<noteq> b \<longrightarrow>
          isNegative (comparefn a b) \<and> isPositive (comparefn b a) \<or>
          isPositive (comparefn a b) \<and> isNegative (comparefn b a)) \<and>
     (\<forall>a \<in> set xs. \<forall>b \<in> set xs. \<forall>c \<in> set xs.
        isNegative (comparefn a b) \<and> isNegative (comparefn b c) \<longrightarrow> isNegative (comparefn a c))"

section \<open>Stand-ins and sample data\<close>

text \<open>
  Stand-ins for the two engine functions, for the concrete evaluations below: a comparison
  by code units in the place of \<open>localeCompare\<close>, and the decimal text of a number that
  is right on the integers a spreadsheet cell holds exactly (below \<open>10\<^sup>2\<^sup>1\<close>).
\<close>

fun codeUnitCompare :: "string \<Rightarrow> string \<Rightarrow> int" where
  "codeUnitCompare [] [] = 0"
| "codeUnitCompare [] (y # ys) = - 1"
| "codeUnitCompare (x # xs) [] = 1"
| "codeUnitCompare (x # xs) (y # ys) =
     (if (of_char x :: nat) < of_char y then - 1
      else if (of_char y :: nat) < of_char x then 1
      else codeUnitCompare xs ys)"

fun natText :: "nat \<Rightarrow> string" where
  "natText n =
     (if n < 10 then [''0123456789'' ! n]
      else natText (n div 10) @ [''0123456789'' ! (n mod 10)])"

declare natText.simps [simp del]

definition numberText :: "jsnum \<Rightarrow> string" where
  "numberText n =
     (case n of
        NaN \<Rightarrow> ''NaN''
      | PosInf \<Rightarrow> ''Infinity''
      | NegInf \<Rightarrow> ''-Infinity''
      | Fin q \<Rightarrow> if q < 0 then CHR ''-'' # natText (nat \<lfloor>- q\<rfloor>) else natText (nat \<lfloor>q\<rfloor>))"


text \<open>
  Sample rows with the seven columns of the parser: only the bank code and the amount vary.
\<close>

definition sampleRow :: "rat \<Rightarrow> string \<Rightarrow> jsval \<Rightarrow> row" where
  "sampleRow i bank amt =
     \<lparr>row_id = i,
      cells = [(''CHALLAN_NO'', JStr ''10000001001''), (''A_BANCD'', JStr bank),
               (''A_BANKL'', JStr ''BR01''), (''CHALL_DATE'', JStr ''20250101''),
               (''ACCOUNT_CODE'', JStr ''ACC000001''), (''CHAN_AMT'', amt),
               (''NOTES'', JStr ''Sample transaction'')],
      originalData = None\<rparr>"

definition exampleState :: tableState where
  "exampleState =
     initialState [sampleRow 1 ''BANK01'' (JStr ''500''), sampleRow 2 ''BANK02'' (JStr ''50''),
                   sampleRow 3 ''BANK03'' (JStr ''1000'')]"


text \<open>Sample collections: one with missing amounts, one with a tie in the amounts.\<close>

definition rowsWithMissing :: "row list" where
  "rowsWithMissing =
     [sampleRow 1 ''BANK01'' JNull, sampleRow 2 ''BANK02'' (JStr ''50''),
      sampleRow 3 ''BANK03'' JUndefined, sampleRow 4 ''BANK04'' (JStr ''7'')]"

definition tiedRows :: "row list" where
  "tiedRows =
     [sampleRow 1 ''BANK01'' (JStr ''500''), sampleRow 2 ''BANK02'' (JStr ''50''),
      sampleRow 3 ''BANK03'' (JStr ''500'')]"

section \<open>The stand-ins on samples\<close>

lemma numberText_samples:
  "numberText (Fin 1019) = ''1019'' \<and> numberText (Fin (- 25)) = ''-25'' \<and> numberText (Fin 0) = ''0''"
  by code_simp

lemma codeUnitCompare_samples:
  "codeUnitCompare ''abc'' ''abd'' = - 1 \<and> codeUnitCompare ''b'' ''abd'' = 1 \<and>
   codeUnitCompare ''ab'' ''ab'' = 0"
  by code_simp

section \<open>Row operations: add and edit\<close>

text \<open>
  Claim C5. Saving a new row returns the collection with that row in front: the new row
  is first, and the rows that were there before follow it unchanged and in their order.
\<close>

theorem handleSaveRow_add:
  "isNewRow st \<Longrightarrow>
     data (handleSaveRow r st) = r # data st \<and>
     hd (data (handleSaveRow r st)) = r \<and>
     tl (data (handleSaveRow r st)) = data st \<and>
     length (data (handleSaveRow r st)) = Suc (length (data st))"
  by (simp add: handleSaveRow_def)

theorem handleSaveRow_add_witness:
  "isNewRow (handleAddRow (sampleRow 9 ''BANK09'' (JStr ''0''))
       (initialState [sampleRow 1 ''BANK01'' (JStr ''500''), sampleRow 2 ''BANK02'' (JStr ''50'')])) \<and>
   data (handleSaveRow (sampleRow 9 ''BANK09'' (JStr ''75''))
       (handleAddRow (sampleRow 9 ''BANK09'' (JStr ''0''))
         (initialState [sampleRow 1 ''BANK01'' (JStr ''500''), sampleRow 2 ''BANK02'' (JStr ''50'')])))
     = [sampleRow 9 ''BANK09'' (JStr ''75''), sampleRow 1 ''BANK01'' (JStr ''500''),
        sampleRow 2 ''BANK02'' (JStr ''50'')]"
  using handleSaveRow_add
    [of "handleAddRow (sampleRow 9 ''BANK09'' (JStr ''0''))
          (initialState [sampleRow 1 ''BANK01'' (JStr ''500''), sampleRow 2 ''BANK02'' (JStr ''50'')])"
        "sampleRow 9 ''BANK09'' (JStr ''75'')"]
  by (simp add: handleAddRow_def initialState_def)

text \<open>
  Claim C8. Saving an edited row \<open>r\<close> returns a collection of the same length; at every
  position, a row with the id of \<open>r\<close> has become \<open>r\<close> and a row with another id is
  unchanged; and when no row has the id of \<open>r\<close> the collection is returned as it was.
\<close>

theorem handleSaveRow_edit:
  "\<not> isNewRow st \<Longrightarrow>
     length (data (handleSaveRow r st)) = length (data st) \<and>
     (\<forall>i < length (data st).
        (row_id (data st ! i) = row_id r \<longrightarrow> data (handleSaveRow r st) ! i = r) \<and>
        (row_id (data st ! i) \<noteq> row_id r \<longrightarrow> data (handleSaveRow r st) ! i = data st ! i)) \<and>
     (row_id r \<notin> row_id ` set (data st) \<longrightarrow> data (handleSaveRow r st) = data st)"
proof -
  assume edit: "\<not> isNewRow st"
  have d: "data (handleSaveRow r st) = map (\<lambda>r'. if row_id r' = row_id r then r else r') (data st)"
    using edit by (simp add: handleSaveRow_def)
  have noop: "row_id r \<notin> row_id ` set (data st) \<longrightarrow> data (handleSaveRow r st) = data st"
  proof
    assume fresh: "row_id r \<notin> row_id ` set (data st)"
    have "map (\<lambda>r'. if row_id r' = row_id r then r else r') (data st) = data st"
    proof (rule map_idI)
      fix x assume "x \<in> set (data st)"
      then have "row_id x \<in> row_id ` set (data st)" by (rule imageI)
      with fresh have "row_id x \<noteq> row_id r" by metis
      then show "(if row_id x = row_id r then r else x) = x" by simp
    qed
    then show "data (handleSaveRow r st) = data st" by (simp add: d)
  qed
  show ?thesis
    using noop by (simp add: d)
qed

theorem handleSaveRow_edit_witness:
  "\<not> isNewRow (handleEditRow (sampleRow 2 ''BANK02'' (JStr ''50''))
       (initialState [sampleRow 1 ''BANK01'' (JStr ''500''), sampleRow 2 ''BANK02'' (JStr ''50''),
                      sampleRow 3 ''BANK03'' (JStr ''1000'')])) \<and>
   data (handleSaveRow (sampleRow 2 ''BANK07'' (JStr ''60''))
       (handleEditRow (sampleRow 2 ''BANK02'' (JStr ''50''))
         (initialState [sampleRow 1 ''BANK01'' (JStr ''500''), sampleRow 2 ''BANK02'' (JStr ''50''),
                        sampleRow 3 ''BANK03'' (JStr ''1000'')])))
     = [sampleRow 1 ''BANK01'' (JStr ''500''), sampleRow 2 ''BANK07'' (JStr ''60''),
        sampleRow 3 ''BANK03'' (JStr ''1000'')] \<and>
   data (handleSaveRow (sampleRow 8 ''BANK07'' (JStr ''60''))
       (handleEditRow (sampleRow 2 ''BANK02'' (JStr ''50''))
         (initialState [sampleRow 1 ''BANK01'' (JStr ''500''), sampleRow 2 ''BANK02'' (JStr ''50''),
                        sampleRow 3 ''BANK03'' (JStr ''1000'')])))
     = [sampleRow 1 ''BANK01'' (JStr ''500''), sampleRow 2 ''BANK02'' (JStr ''50''),
        sampleRow 3 ''BANK03'' (JStr ''1000'')]"
  using handleSaveRow_edit
    [of "handleEditRow (sampleRow 2 ''BANK02'' (JStr ''50''))
          (initialState [sampleRow 1 ''BANK01'' (JStr ''500''), sampleRow 2 ''BANK02'' (JStr ''50''),
                         sampleRow 3 ''BANK03'' (JStr ''1000'')])"
        "sampleRow 2 ''BANK07'' (JStr ''60'')"]
  by (simp add: handleEditRow_def initialState_def handleSaveRow_def sampleRow_def)

section \<open>Row operations: duplicate and delete\<close>

lemma length_duplicates: "length (duplicates mint sel) = length sel"
  by (simp add: duplicates_def)

lemma nth_duplicates: "i < length sel \<Longrightarrow> duplicates mint sel ! i = (sel ! i)\<lparr>row_id := mint i\<rparr>"
  by (simp add: duplicates_def)

lemma row_id_duplicates: "map row_id (duplicates mint sel) = map mint [0..<length sel]"
  by (rule nth_equalityI) (simp_all add: length_duplicates nth_duplicates)

text \<open>
  Claim C6. With a non-empty selection, duplicating returns the copies of the selected rows
  followed by the collection as it was: the copies come in the table order of their
  originals, and each copy has the cells and the raw data of its original and the id
  minted for it.
\<close>

theorem handleDuplicateSelected_prepends:
  "selectedRows st \<noteq> {} \<Longrightarrow>
     length (data (handleDuplicateSelected mint st))
       = length (filter (\<lambda>r. row_id r \<in> selectedRows st) (data st)) + length (data st) \<and>
     drop (length (filter (\<lambda>r. row_id r \<in> selectedRows st) (data st)))
          (data (handleDuplicateSelected mint st)) = data st \<and>
     (\<forall>i < length (filter (\<lambda>r. row_id r \<in> selectedRows st) (data st)).
        data (handleDuplicateSelected mint st) ! i
          = (filter (\<lambda>r. row_id r \<in> selectedRows st) (data st) ! i)\<lparr>row_id := mint i\<rparr> \<and>
        cells (data (handleDuplicateSelected mint st) ! i)
          = cells (filter (\<lambda>r. row_id r \<in> selectedRows st) (data st) ! i) \<and>
        originalData (data (handleDuplicateSelected mint st) ! i)
          = originalData (filter (\<lambda>r. row_id r \<in> selectedRows st) (data st) ! i) \<and>
        row_id (data (handleDuplicateSelected mint st) ! i) = mint i)"
  by (simp add: handleDuplicateSelected_def Let_def length_duplicates nth_append nth_duplicates)

theorem handleDuplicateSelected_prepends_witness:
  "selectedRows (exampleState\<lparr>selectedRows := {1, 3}\<rparr>) \<noteq> {} \<and>
   data (handleDuplicateSelected (\<lambda>i. 100 + of_nat i) (exampleState\<lparr>selectedRows := {1, 3}\<rparr>))
     = [sampleRow 100 ''BANK01'' (JStr ''500''), sampleRow 101 ''BANK03'' (JStr ''1000''),
        sampleRow 1 ''BANK01'' (JStr ''500''), sampleRow 2 ''BANK02'' (JStr ''50''),
        sampleRow 3 ''BANK03'' (JStr ''1000'')]"
  using handleDuplicateSelected_prepends
    [of "exampleState\<lparr>selectedRows := {1, 3}\<rparr>" "\<lambda>i. 100 + of_nat i"]
  by (simp add: exampleState_def initialState_def handleDuplicateSelected_def duplicates_def
      sampleRow_def)

lemma filter_out_minted:
  assumes "\<forall>i < length sel. mint i \<notin> row_id ` set d"
  shows "filter (\<lambda>r. row_id r \<notin> set (map mint [0..<length sel])) (duplicates mint sel @ d) = d"
proof -
  have "set (map row_id (duplicates mint sel)) = set (map mint [0..<length sel])"
    by (simp only: row_id_duplicates)
  then have a: "\<forall>r \<in> set (duplicates mint sel). row_id r \<in> set (map mint [0..<length sel])"
    by auto
  have b: "\<forall>r \<in> set d. row_id r \<notin> set (map mint [0..<length sel])"
    using assms by (fastforce simp: image_iff)
  have "filter (\<lambda>r. row_id r \<notin> set (map mint [0..<length sel])) (duplicates mint sel) = []"
    using a by (simp add: filter_empty_conv)
  moreover have "filter (\<lambda>r. row_id r \<notin> set (map mint [0..<length sel])) d = d"
    using b by (simp add: filter_id_conv)
  ultimately show ?thesis by simp
qed

text \<open>
  Claim C7. When the minted ids differ from every id of the collection, duplicating the
  selection and then deleting exactly the rows with the minted ids gives back the original
  collection, row for row and in order.
\<close>

theorem duplicate_then_delete_restores:
  assumes "selectedRows st \<noteq> {}"
    and "\<forall>i < length (filter (\<lambda>r. row_id r \<in> selectedRows st) (data st)).
           mint i \<notin> row_id ` set (data st)"
  shows "data (handleDeleteSelected True
           ((handleDuplicateSelected mint st)
              \<lparr>selectedRows := set (map mint
                 [0..<length (filter (\<lambda>r. row_id r \<in> selectedRows st) (data st))])\<rparr>))
         = data st"
proof (cases "filter (\<lambda>r. row_id r \<in> selectedRows st) (data st) = []")
  case True
  then show ?thesis
    using assms(1) by (simp add: handleDeleteSelected_def handleDuplicateSelected_def duplicates_def)
next
  case False
  then have "set (map mint [0..<length (filter (\<lambda>r. row_id r \<in> selectedRows st) (data st))]) \<noteq> {}"
    by simp
  then show ?thesis
    using assms(1) filter_out_minted [OF assms(2)]
    by (simp add: handleDeleteSelected_def handleDuplicateSelected_def Let_def del: set_map set_upt map_eq_conv)
qed

theorem duplicate_then_delete_restores_witness:
  "selectedRows (exampleState\<lparr>selectedRows := {1, 3}\<rparr>) \<noteq> {} \<and>
   data (handleDuplicateSelected (\<lambda>i. 100 + of_nat i) (exampleState\<lparr>selectedRows := {1, 3}\<rparr>))
     \<noteq> data exampleState \<and>
   data (handleDeleteSelected True
     ((handleDuplicateSelected (\<lambda>i. 100 + of_nat i) (exampleState\<lparr>selectedRows := {1, 3}\<rparr>))
        \<lparr>selectedRows := {100, 101}\<rparr>))
     = [sampleRow 1 ''BANK01'' (JStr ''500''), sampleRow 2 ''BANK02'' (JStr ''50''),
        sampleRow 3 ''BANK03'' (JStr ''1000'')]"
  using duplicate_then_delete_restores
    [of "exampleState\<lparr>selectedRows := {1, 3}\<rparr>" "\<lambda>i. 100 + of_nat i"]
  by (simp add: exampleState_def initialState_def handleDuplicateSelected_def duplicates_def
      sampleRow_def)

section \<open>The filter stage\<close>



lemma toString_orElse_JStr: "toString nts (orElse (JStr s) (JStr [])) = s"
  by (simp add: orElse_def truthy_def)



section \<open>Pagination\<close>

lemma slice_window:
  assumes "0 \<le> a" and "a \<le> b"
  shows "slice a b xs = take (nat (b - a)) (drop (nat a) xs)"
proof (cases "a \<le> int (length xs)")
  case True
  have "take (nat (min b (int (length xs)) - a)) (drop (nat a) xs)
          = take (nat (b - a)) (drop (nat a) xs)"
  proof (cases "b \<le> int (length xs)")
    case True
    then show ?thesis by (simp add: min_def)
  next
    case False
    then have "nat (min b (int (length xs)) - a) = length (drop (nat a) xs)"
      using assms \<open>a \<le> int (length xs)\<close> by (simp add: min_def)
    moreover have "length (drop (nat a) xs) \<le> nat (b - a)"
      using False assms by simp
    ultimately show ?thesis by simp
  qed
  then show ?thesis
    using assms True by (simp add: slice_def Let_def min_def)
next
  case False
  then show ?thesis
    using assms by (simp add: slice_def Let_def min_def)
qed

lemma paginatedData_window:
  "1 \<le> p \<Longrightarrow> paginatedData xs (int p) perPage = take perPage (drop ((p - 1) * perPage) xs)"
proof -
  assume p: "1 \<le> p"
  have s: "startIndex (int p) perPage = int ((p - 1) * perPage)"
    using p by (simp add: startIndex_def of_nat_diff)
  have "slice (startIndex (int p) perPage) (endIndex (int p) perPage) xs
          = take (nat (endIndex (int p) perPage - startIndex (int p) perPage))
                 (drop (nat (startIndex (int p) perPage)) xs)"
    by (rule slice_window) (simp_all add: s endIndex_def)
  moreover have "nat (startIndex (int p) perPage) = (p - 1) * perPage"
    by (simp only: s nat_int)
  moreover have "nat (endIndex (int p) perPage - startIndex (int p) perPage) = perPage"
    by (simp add: endIndex_def)
  ultimately show ?thesis
    by (simp only: paginatedData_def)
qed

lemma concat_windows:
  "length xs \<le> n * k \<Longrightarrow> concat (map (\<lambda>p. take k (drop (p * k) xs)) [0..<n]) = xs"
proof (induction n arbitrary: xs)
  case 0
  then show ?case by simp
next
  case (Suc n)
  have "length (drop k xs) \<le> n * k" using Suc.prems by simp
  then have ih: "concat (map (\<lambda>p. take k (drop (p * k) (drop k xs))) [0..<n]) = drop k xs"
    by (rule Suc.IH)
  have "map (\<lambda>p. take k (drop (p * k) xs)) [0..<Suc n]
          = take k xs # map (\<lambda>p. take k (drop (p * k) (drop k xs))) [0..<n]"
    by (simp add: upt_conv_Cons map_Suc_upt [symmetric] add.commute del: upt_Suc)
  then show ?case using ih by simp
qed

lemma ceiling_pages:
  assumes "0 < k"
  shows "\<lceil>(of_nat n :: 'a :: floor_ceiling) / of_nat k\<rceil> = int ((n + k - 1) div k)"
proof -
  define q where "q = (n + k - 1) div k"
  define r where "r = (n + k - 1) mod k"
  have split: "n + k - 1 = q * k + r" by (simp add: q_def r_def)
  have r: "r < k" using assms by (simp add: r_def)
  have up: "n \<le> q * k" using split r assms by linarith
  have low: "q * k < n + k" using split assms by linarith
  have kpos: "(0 :: 'a) < of_nat k" using assms by simp
  have "(of_nat n :: 'a) \<le> of_nat (q * k)" using up by (simp only: of_nat_le_iff)
  then have a: "(of_nat n :: 'a) / of_nat k \<le> of_nat q"
    using kpos by (simp add: pos_divide_le_eq)
  have "(of_nat (q * k) :: 'a) < of_nat (n + k)" using low by (simp only: of_nat_less_iff)
  then have "((of_nat q :: 'a) - 1) * of_nat k < of_nat n" by (simp add: algebra_simps)
  then have b: "(of_nat q :: 'a) - 1 < of_nat n / of_nat k"
    using kpos by (simp add: pos_less_divide_eq)
  have "\<lceil>(of_nat n :: 'a) / of_nat k\<rceil> = int q"
    using a b by (simp add: ceiling_eq_iff)
  then show ?thesis by (simp add: q_def)
qed

lemma ITEMS_PER_PAGE_OPTIONS_positive: "perPage \<in> set ITEMS_PER_PAGE_OPTIONS \<Longrightarrow> 0 < perPage"
  by (auto simp: ITEMS_PER_PAGE_OPTIONS_def)

text \<open>
  Claim C4. For a page size above zero (every size the selector offers is), the number of
  pages is the ceiling of length over page size, zero for the empty sequence; the pages
  \<open>1\<close> to \<open>totalPages\<close>, one after the other, make up the whole sequence again, each
  page being the next window of at most page-size rows and none of them empty.
\<close>

theorem pagination_partitions:
  "0 < perPage \<Longrightarrow>
     totalPages (length xs) perPage = Fin (of_nat ((length xs + perPage - 1) div perPage)) \<and>
     int ((length xs + perPage - 1) div perPage) = \<lceil>real (length xs) / real perPage\<rceil> \<and>
     (xs = [] \<longrightarrow> totalPages (length xs) perPage = Fin 0) \<and>
     concat (map (\<lambda>p. paginatedData xs (int p) perPage)
                 [1..<Suc ((length xs + perPage - 1) div perPage)]) = xs \<and>
     (\<forall>p \<in> {1..(length xs + perPage - 1) div perPage}.
        paginatedData xs (int p) perPage = take perPage (drop ((p - 1) * perPage) xs) \<and>
        paginatedData xs (int p) perPage \<noteq> [])"
proof -
  assume pos: "0 < perPage"
  define n where "n = (length xs + perPage - 1) div perPage"
  have total: "totalPages (length xs) perPage = Fin (of_nat n)"
    using pos ceiling_pages [OF pos, where 'a = rat, of "length xs"]
    by (simp add: totalPages_def n_def)
  have ceil: "int n = \<lceil>real (length xs) / real perPage\<rceil>"
    using ceiling_pages [OF pos, where 'a = real, of "length xs"] by (simp add: n_def)
  have empty: "xs = [] \<longrightarrow> totalPages (length xs) perPage = Fin 0"
    using pos by (simp add: totalPages_def)
  have cover: "length xs \<le> n * perPage"
  proof -
    have "length xs + perPage - 1 = n * perPage + (length xs + perPage - 1) mod perPage"
      by (simp add: n_def)
    moreover have "(length xs + perPage - 1) mod perPage < perPage" using pos by simp
    ultimately show ?thesis using pos by linarith
  qed
  have pages: "map (\<lambda>p. paginatedData xs (int p) perPage) [1..<Suc n]
                 = map (\<lambda>p. take perPage (drop (p * perPage) xs)) [0..<n]"
  proof -
    have "map (\<lambda>p. paginatedData xs (int p) perPage) [1..<Suc n]
            = map (\<lambda>p. take perPage (drop ((p - 1) * perPage) xs)) [1..<Suc n]"
    proof (rule map_cong)
      fix p assume "p \<in> set [1..<Suc n]"
      then have "1 \<le> p" by (simp del: upt_Suc)
      then show "paginatedData xs (int p) perPage = take perPage (drop ((p - 1) * perPage) xs)"
        by (rule paginatedData_window)
    qed simp
    also have "\<dots> = map (\<lambda>p. take perPage (drop (p * perPage) xs)) [0..<n]"
      by (simp add: map_Suc_upt [symmetric] del: upt_Suc)
    finally show ?thesis .
  qed
  have whole: "concat (map (\<lambda>p. paginatedData xs (int p) perPage) [1..<Suc n]) = xs"
    unfolding pages by (rule concat_windows [OF cover])
  have each: "\<forall>p \<in> {1..n}.
        paginatedData xs (int p) perPage = take perPage (drop ((p - 1) * perPage) xs) \<and>
        paginatedData xs (int p) perPage \<noteq> []"
  proof
    fix p assume p: "p \<in> {1..n}"
    then have p1: "1 \<le> p" and pn: "p \<le> n" by simp_all
    have w: "paginatedData xs (int p) perPage = take perPage (drop ((p - 1) * perPage) xs)"
      by (rule paginatedData_window [OF p1])
    have "(p - 1) * perPage < length xs"
    proof -
      have "p * perPage \<le> n * perPage" using pn by simp
      also have "n * perPage \<le> length xs + perPage - 1" by (simp add: n_def)
      finally have "p * perPage < length xs + perPage" using pos by linarith
      moreover have "p * perPage = (p - 1) * perPage + perPage"
        using p1 by (simp add: algebra_simps mult_eq_if)
      ultimately show ?thesis by linarith
    qed
    then have "take perPage (drop ((p - 1) * perPage) xs) \<noteq> []"
      using pos by simp
    with w show "paginatedData xs (int p) perPage = take perPage (drop ((p - 1) * perPage) xs) \<and>
        paginatedData xs (int p) perPage \<noteq> []" by simp
  qed
  show ?thesis
    using total ceil empty whole each unfolding n_def by blast
qed


theorem pagination_partitions_witness:
  "(0 :: nat) < 10 \<and>
   totalPages (length [1..<24]) 10 = Fin 3 \<and>
   paginatedData [1..<24] 1 10 = [1, 2, 3, 4, 5, 6, 7, 8, 9, 10] \<and>
   paginatedData [1..<24] 2 10 = [11, 12, 13, 14, 15, 16, 17, 18, 19, 20] \<and>
   paginatedData [1..<24] 3 10 = [21, 22, 23] \<and>
   paginatedData [1..<24] 1 10 @ paginatedData [1..<24] 2 10 @ paginatedData [1..<24] 3 10
     = [1..<24]"
proof -
  have pos: "(0 :: nat) < 10" by simp
  have total: "totalPages (length [1..<24]) 10 = Fin 3" by code_simp
  have p1: "paginatedData [1..<24] 1 10 = [1, 2, 3, 4, 5, 6, 7, 8, 9, 10]" by code_simp
  have p2: "paginatedData [1..<24] 2 10 = [11, 12, 13, 14, 15, 16, 17, 18, 19, 20]" by code_simp
  have p3: "paginatedData [1..<24] 3 10 = [21, 22, 23]" by code_simp
  have whole: "paginatedData [1..<24] 1 10 @ paginatedData [1..<24] 2 10 @ paginatedData [1..<24] 3 10
     = [1..<24]" by code_simp
  show ?thesis
    using pagination_partitions [OF pos, of "[1..<24]"] pos total p1 p2 p3 whole by blast
qed

section \<open>Ingestion\<close>






section \<open>The sort stage\<close>

subsection \<open>Both sorts return a permutation\<close>

lemma arraySort_Nil: "arraySort engine c [] = []"
  by (cases engine) (simp_all add: arraySort_def)

lemma arraySort_snoc:
  "arraySort NewFirst c (xs @ [x]) = insertSorted c x (arraySort NewFirst c xs)"
  by (simp add: arraySort_def)

lemma insertBehind_insertSorted:
  "insertBehind c x ys = insertSorted (\<lambda>x y. if isPositive (c y x) then Fin 1 else Fin (- 1)) x ys"
  by (induction ys) auto

lemma arraySort_PlacedFirst:
  "arraySort PlacedFirst c xs
     = rev (arraySort NewFirst (\<lambda>x y. if isPositive (c y x) then Fin 1 else Fin (- 1)) xs)"
proof -
  have "(\<lambda>placed x. insertBehind c x placed)
          = (\<lambda>placed x. insertSorted (\<lambda>x y. if isPositive (c y x) then Fin 1 else Fin (- 1)) x placed)"
    by (simp add: insertBehind_insertSorted)
  then show ?thesis by (simp add: arraySort_def)
qed

lemma mset_insertSorted: "mset (insertSorted c x ys) = add_mset x (mset ys)"
  by (induction ys) auto

lemma mset_arraySort_NewFirst: "mset (arraySort NewFirst c xs) = mset xs"
  by (induction xs rule: rev_induct) (simp_all add: arraySort_Nil arraySort_snoc mset_insertSorted)

lemma mset_arraySort: "mset (arraySort engine c xs) = mset xs"
  by (cases engine) (simp_all add: mset_arraySort_NewFirst arraySort_PlacedFirst)

lemma set_arraySort: "set (arraySort engine c xs) = set xs"
  by (metis mset_arraySort set_mset_mset)

lemma distinct_arraySort: "distinct (arraySort engine c xs) = distinct xs"
  by (rule mset_eq_imp_distinct_iff [OF mset_arraySort])

lemma set_insertSorted: "set (insertSorted c x ys) = insert x (set ys)"
  by (metis mset_insertSorted set_mset_mset set_mset_add_mset_insert)

lemma insertSorted_cong:
  "\<forall>y \<in> set ys. isNegative (c x y) = isNegative (c' x y) \<Longrightarrow>
     insertSorted c x ys = insertSorted c' x ys"
  by (induction ys) auto

lemma arraySort_cong:
  "distinct xs \<Longrightarrow>
   \<forall>a \<in> set xs. \<forall>b \<in> set xs. a \<noteq> b \<longrightarrow> isNegative (c a b) = isNegative (c' a b) \<Longrightarrow>
     arraySort NewFirst c xs = arraySort NewFirst c' xs"
proof (induction xs rule: rev_induct)
  case Nil
  show ?case by (simp add: arraySort_Nil)
next
  case (snoc x xs)
  then have ih: "arraySort NewFirst c xs = arraySort NewFirst c' xs" by simp
  have "\<forall>y \<in> set (arraySort NewFirst c' xs). isNegative (c x y) = isNegative (c' x y)"
    using snoc.prems by (auto simp: set_arraySort)
  then have "insertSorted c x (arraySort NewFirst c' xs) = insertSorted c' x (arraySort NewFirst c' xs)"
    by (rule insertSorted_cong)
  then show ?case by (simp add: arraySort_snoc ih)
qed

subsection \<open>Missing values\<close>

lemma insertSorted_last:
  "\<forall>y \<in> set ys. \<not> isNegative (c x y) \<Longrightarrow> insertSorted c x ys = ys @ [x]"
  by (induction ys) auto

lemma insertSorted_before:
  assumes "\<forall>m \<in> set ms. isNegative (c x m)"
  shows "insertSorted c x (ps @ ms) = insertSorted c x ps @ ms"
proof (induction ps)
  case Nil
  show ?case using assms by (cases ms) auto
next
  case (Cons p ps)
  then show ?case by simp
qed

text \<open>
  Under \<open>NewFirst\<close>, when an element of kind \<open>M\<close> is never put before another and every
  other element is put before those of kind \<open>M\<close>, the elements of kind \<open>M\<close> end up last, in
  their input order.
\<close>

lemma arraySort_NewFirst_split:
  assumes never: "\<And>x y. M x \<Longrightarrow> \<not> isNegative (c x y)"
    and always: "\<And>x y. \<not> M x \<Longrightarrow> M y \<Longrightarrow> isNegative (c x y)"
  shows "arraySort NewFirst c xs = arraySort NewFirst c (filter (\<lambda>x. \<not> M x) xs) @ filter M xs"
proof (induction xs rule: rev_induct)
  case Nil
  show ?case by (simp add: arraySort_Nil)
next
  case (snoc x xs)
  show ?case
  proof (cases "M x")
    case True
    then have "insertSorted c x (arraySort NewFirst c xs) = arraySort NewFirst c xs @ [x]"
      by (intro insertSorted_last) (simp add: never)
    then show ?thesis using True snoc.IH by (simp add: arraySort_snoc)
  next
    case False
    have "\<forall>m \<in> set (filter M xs). isNegative (c x m)"
      using False by (simp add: always)
    then have "insertSorted c x (arraySort NewFirst c (filter (\<lambda>x. \<not> M x) xs) @ filter M xs)
                 = insertSorted c x (arraySort NewFirst c (filter (\<lambda>x. \<not> M x) xs)) @ filter M xs"
      by (rule insertSorted_before)
    then show ?thesis using False snoc.IH by (simp add: arraySort_snoc)
  qed
qed

text \<open>
  Under \<open>PlacedFirst\<close>, with the placed elements in reverse: an element of kind \<open>M\<close> is
  passed by every newcomer, and a newcomer of kind \<open>M\<close> stops at the first element of the
  other kind. The elements of kind \<open>M\<close> end up last again, now in the reverse of their
  input order.
\<close>

lemma insertBehind_passes:
  assumes "\<forall>m \<in> set ms. isPositive (c m x)"
  shows "insertBehind c x (ms @ ps) = ms @ insertBehind c x ps"
  using assms by (induction ms) auto

lemma insertBehind_stops:
  assumes "\<forall>p \<in> set ps. \<not> isPositive (c p x)"
  shows "insertBehind c x ps = x # ps"
  using assms by (cases ps) auto

lemma set_insertBehind: "set (insertBehind c x ys) = insert x (set ys)"
  by (simp add: insertBehind_insertSorted set_insertSorted)

lemma set_placedBehind:
  "set (foldl (\<lambda>placed x. insertBehind c x placed) [] xs) = set xs"
  by (induction xs rule: rev_induct) (simp_all add: set_insertBehind)

lemma placedBehind_split:
  assumes passes: "\<And>x y. M y \<Longrightarrow> isPositive (c y x)"
    and stops: "\<And>x y. \<not> M y \<Longrightarrow> M x \<Longrightarrow> \<not> isPositive (c y x)"
  shows "foldl (\<lambda>placed x. insertBehind c x placed) [] xs
           = filter M xs @ foldl (\<lambda>placed x. insertBehind c x placed) [] (filter (\<lambda>x. \<not> M x) xs)"
proof (induction xs rule: rev_induct)
  case Nil
  show ?case by simp
next
  case (snoc x xs)
  define ps where "ps = foldl (\<lambda>placed x. insertBehind c x placed) [] (filter (\<lambda>x. \<not> M x) xs)"
  have placed: "foldl (\<lambda>placed x. insertBehind c x placed) [] xs = filter M xs @ ps"
    using snoc.IH by (simp add: ps_def)
  have ps: "\<forall>p \<in> set ps. \<not> M p"
    by (simp add: ps_def set_placedBehind)
  have pass: "insertBehind c x (filter M xs @ ps) = filter M xs @ insertBehind c x ps"
    by (rule insertBehind_passes) (simp add: passes)
  show ?case
  proof (cases "M x")
    case True
    have "insertBehind c x ps = x # ps"
      by (rule insertBehind_stops) (use ps True stops in blast)
    then show ?thesis
      using True placed pass by (simp add: ps_def)
  next
    case False
    then show ?thesis
      using placed pass by (simp add: ps_def)
  qed
qed

lemma arraySort_PlacedFirst_split:
  assumes passes: "\<And>x y. M y \<Longrightarrow> isPositive (c y x)"
    and stops: "\<And>x y. \<not> M y \<Longrightarrow> M x \<Longrightarrow> \<not> isPositive (c y x)"
  shows "arraySort PlacedFirst c xs
           = arraySort PlacedFirst c (filter (\<lambda>x. \<not> M x) xs) @ filter M (rev xs)"
proof -
  have "foldl (\<lambda>placed x. insertBehind c x placed) [] xs
           = filter M xs @ foldl (\<lambda>placed x. insertBehind c x placed) [] (filter (\<lambda>x. \<not> M x) xs)"
    by (rule placedBehind_split [of M c xs, OF passes stops])
  then show ?thesis by (simp add: arraySort_def rev_filter)
qed

lemma compareRows_missing_first:
  "eqNull (getCell a k) \<Longrightarrow> compareRows lc nts k dir a b = Fin 1"
  by (simp add: compareRows_def)

lemma compareRows_missing_second:
  "\<not> eqNull (getCell a k) \<Longrightarrow> eqNull (getCell b k) \<Longrightarrow> compareRows lc nts k dir a b = Fin (- 1)"
  by (simp add: compareRows_def)

text \<open>
  The sorted rows are the sorted rows that have a value, followed by the rows that have
  none: in their input order under \<open>NewFirst\<close>, in the reverse order under \<open>PlacedFirst\<close>.
\<close>

lemma sortedData_split:
  assumes "key cfg = Some k" and "k \<noteq> []"
  shows "sortedData engine lc nts cfg filtered
           = arraySort engine (compareRows lc nts k (direction cfg))
               (filter (\<lambda>r. \<not> eqNull (getCell r k)) filtered)
             @ filter (\<lambda>r. eqNull (getCell r k))
                 (case engine of NewFirst \<Rightarrow> filtered | PlacedFirst \<Rightarrow> rev filtered)"
proof (cases engine)
  case NewFirst
  have "arraySort NewFirst (compareRows lc nts k (direction cfg)) filtered
          = arraySort NewFirst (compareRows lc nts k (direction cfg))
               (filter (\<lambda>r. \<not> eqNull (getCell r k)) filtered)
             @ filter (\<lambda>r. eqNull (getCell r k)) filtered"
    by (rule arraySort_NewFirst_split)
       (simp_all add: compareRows_missing_first compareRows_missing_second)
  then show ?thesis using assms NewFirst by (simp add: sortedData_def)
next
  case PlacedFirst
  have "arraySort PlacedFirst (compareRows lc nts k (direction cfg)) filtered
          = arraySort PlacedFirst (compareRows lc nts k (direction cfg))
               (filter (\<lambda>r. \<not> eqNull (getCell r k)) filtered)
             @ filter (\<lambda>r. eqNull (getCell r k)) (rev filtered)"
    by (rule arraySort_PlacedFirst_split)
       (simp_all add: compareRows_missing_first compareRows_missing_second)
  then show ?thesis using assms PlacedFirst by (simp add: sortedData_def)
qed

text \<open>
  Claim C3, as amended. For every sort column, either direction and both sorts: in the
  sorted rows no row whose value in the column is \<open>null\<close> or \<open>undefined\<close> stands before a
  row that has a value there. The order of the rows with a missing value among themselves
  is not part of the statement.
\<close>

theorem sortedData_missing_last:
  assumes "key cfg = Some k" and "k \<noteq> []"
  shows "\<forall>i j. i < j \<and> j < length (sortedData engine lc nts cfg filtered) \<and>
               eqNull (getCell (sortedData engine lc nts cfg filtered ! i) k) \<longrightarrow>
               eqNull (getCell (sortedData engine lc nts cfg filtered ! j) k)"
proof -
  define present where
    "present = arraySort engine (compareRows lc nts k (direction cfg))
                 (filter (\<lambda>r. \<not> eqNull (getCell r k)) filtered)"
  define missing where
    "missing = filter (\<lambda>r. eqNull (getCell r k))
                 (case engine of NewFirst \<Rightarrow> filtered | PlacedFirst \<Rightarrow> rev filtered)"
  have out: "sortedData engine lc nts cfg filtered = present @ missing"
    unfolding present_def missing_def by (rule sortedData_split [OF assms])
  have p: "\<forall>r \<in> set present. \<not> eqNull (getCell r k)"
    by (simp add: present_def set_arraySort)
  have m: "\<forall>r \<in> set missing. eqNull (getCell r k)"
    by (simp add: missing_def)
  have "\<forall>i j. i < j \<and> j < length (present @ missing) \<and>
                eqNull (getCell ((present @ missing) ! i) k) \<longrightarrow>
                eqNull (getCell ((present @ missing) ! j) k)"
  proof (intro allI impI)
    fix i j
    assume a: "i < j \<and> j < length (present @ missing) \<and> eqNull (getCell ((present @ missing) ! i) k)"
    have "\<not> i < length present"
    proof
      assume "i < length present"
      then have "(present @ missing) ! i \<in> set present" by (simp add: nth_append)
      with p a show False by blast
    qed
    then have late: "\<not> j < length present" using a by linarith
    then have "(present @ missing) ! j = missing ! (j - length present)"
      by (simp add: nth_append)
    moreover have "j - length present < length missing"
    proof -
      have "j < length present + length missing" using a by simp
      with late show ?thesis by linarith
    qed
    ultimately have "(present @ missing) ! j \<in> set missing" by simp
    with m show "eqNull (getCell ((present @ missing) ! j) k)" by blast
  qed
  then show ?thesis unfolding out .
qed

text \<open>
  The claim as first stated also keeps the rows with a missing value in the order of the
  filter stage. For two missing values the comparator answers \<open>1\<close> whichever comes first,
  so their order is the engine's: the sort that asks with the placed row first returns
  them reversed.
\<close>

theorem sortedData_missing_order_counterexample:
  "filter (\<lambda>r. eqNull (getCell r ''CHAN_AMT'')) rowsWithMissing
     = [sampleRow 1 ''BANK01'' JNull, sampleRow 3 ''BANK03'' JUndefined] \<and>
   sortedData PlacedFirst codeUnitCompare numberText \<lparr>key = Some ''CHAN_AMT'', direction = Asc\<rparr>
       rowsWithMissing
     = [sampleRow 4 ''BANK04'' (JStr ''7''), sampleRow 2 ''BANK02'' (JStr ''50''),
        sampleRow 3 ''BANK03'' JUndefined, sampleRow 1 ''BANK01'' JNull] \<and>
   filter (\<lambda>r. eqNull (getCell r ''CHAN_AMT''))
       (sortedData PlacedFirst codeUnitCompare numberText
          \<lparr>key = Some ''CHAN_AMT'', direction = Asc\<rparr> rowsWithMissing)
     = [sampleRow 3 ''BANK03'' JUndefined, sampleRow 1 ''BANK01'' JNull] \<and>
   filter (\<lambda>r. eqNull (getCell r ''CHAN_AMT''))
       (sortedData PlacedFirst codeUnitCompare numberText
          \<lparr>key = Some ''CHAN_AMT'', direction = Asc\<rparr> rowsWithMissing)
     \<noteq> filter (\<lambda>r. eqNull (getCell r ''CHAN_AMT'')) rowsWithMissing"
proof -
  have a: "filter (\<lambda>r. eqNull (getCell r ''CHAN_AMT'')) rowsWithMissing
     = [sampleRow 1 ''BANK01'' JNull, sampleRow 3 ''BANK03'' JUndefined]"
    by code_simp
  have b: "sortedData PlacedFirst codeUnitCompare numberText \<lparr>key = Some ''CHAN_AMT'', direction = Asc\<rparr>
       rowsWithMissing
     = [sampleRow 4 ''BANK04'' (JStr ''7''), sampleRow 2 ''BANK02'' (JStr ''50''),
        sampleRow 3 ''BANK03'' JUndefined, sampleRow 1 ''BANK01'' JNull]"
    by code_simp
  have c: "filter (\<lambda>r. eqNull (getCell r ''CHAN_AMT''))
       [sampleRow 4 ''BANK04'' (JStr ''7''), sampleRow 2 ''BANK02'' (JStr ''50''),
        sampleRow 3 ''BANK03'' JUndefined, sampleRow 1 ''BANK01'' JNull]
     = [sampleRow 3 ''BANK03'' JUndefined, sampleRow 1 ''BANK01'' JNull]"
    by code_simp
  have d: "[sampleRow 3 ''BANK03'' JUndefined, sampleRow 1 ''BANK01'' JNull]
             \<noteq> [sampleRow 1 ''BANK01'' JNull, sampleRow 3 ''BANK03'' JUndefined]"
    by (simp add: sampleRow_def)
  show ?thesis
    unfolding b c a using d by simp
qed

theorem sortedData_missing_last_witness:
  "key \<lparr>key = Some ''CHAN_AMT'', direction = Asc\<rparr> = Some ''CHAN_AMT'' \<and> ''CHAN_AMT'' \<noteq> [] \<and>
   sortedData NewFirst codeUnitCompare numberText \<lparr>key = Some ''CHAN_AMT'', direction = Asc\<rparr>
       rowsWithMissing
     = [sampleRow 4 ''BANK04'' (JStr ''7''), sampleRow 2 ''BANK02'' (JStr ''50''),
        sampleRow 1 ''BANK01'' JNull, sampleRow 3 ''BANK03'' JUndefined] \<and>
   sortedData PlacedFirst codeUnitCompare numberText \<lparr>key = Some ''CHAN_AMT'', direction = Asc\<rparr>
       rowsWithMissing
     = [sampleRow 4 ''BANK04'' (JStr ''7''), sampleRow 2 ''BANK02'' (JStr ''50''),
        sampleRow 3 ''BANK03'' JUndefined, sampleRow 1 ''BANK01'' JNull] \<and>
   sortedData NewFirst codeUnitCompare numberText \<lparr>key = Some ''CHAN_AMT'', direction = Desc\<rparr>
       rowsWithMissing
     = [sampleRow 2 ''BANK02'' (JStr ''50''), sampleRow 4 ''BANK04'' (JStr ''7''),
        sampleRow 1 ''BANK01'' JNull, sampleRow 3 ''BANK03'' JUndefined] \<and>
   sortedData PlacedFirst codeUnitCompare numberText \<lparr>key = Some ''CHAN_AMT'', direction = Desc\<rparr>
       rowsWithMissing
     = [sampleRow 2 ''BANK02'' (JStr ''50''), sampleRow 4 ''BANK04'' (JStr ''7''),
        sampleRow 3 ''BANK03'' JUndefined, sampleRow 1 ''BANK01'' JNull]"
proof -
  have k: "key \<lparr>key = Some ''CHAN_AMT'', direction = Asc\<rparr> = Some ''CHAN_AMT''" by simp
  have n: "''CHAN_AMT'' \<noteq> []" by simp
  have a: "sortedData NewFirst codeUnitCompare numberText \<lparr>key = Some ''CHAN_AMT'', direction = Asc\<rparr>
       rowsWithMissing
     = [sampleRow 4 ''BANK04'' (JStr ''7''), sampleRow 2 ''BANK02'' (JStr ''50''),
        sampleRow 1 ''BANK01'' JNull, sampleRow 3 ''BANK03'' JUndefined]"
    by code_simp
  have b: "sortedData PlacedFirst codeUnitCompare numberText \<lparr>key = Some ''CHAN_AMT'', direction = Asc\<rparr>
       rowsWithMissing
     = [sampleRow 4 ''BANK04'' (JStr ''7''), sampleRow 2 ''BANK02'' (JStr ''50''),
        sampleRow 3 ''BANK03'' JUndefined, sampleRow 1 ''BANK01'' JNull]"
    by code_simp
  have c: "sortedData NewFirst codeUnitCompare numberText \<lparr>key = Some ''CHAN_AMT'', direction = Desc\<rparr>
       rowsWithMissing
     = [sampleRow 2 ''BANK02'' (JStr ''50''), sampleRow 4 ''BANK04'' (JStr ''7''),
        sampleRow 1 ''BANK01'' JNull, sampleRow 3 ''BANK03'' JUndefined]"
    by code_simp
  have d: "sortedData PlacedFirst codeUnitCompare numberText \<lparr>key = Some ''CHAN_AMT'', direction = Desc\<rparr>
       rowsWithMissing
     = [sampleRow 2 ''BANK02'' (JStr ''50''), sampleRow 4 ''BANK04'' (JStr ''7''),
        sampleRow 3 ''BANK03'' JUndefined, sampleRow 1 ''BANK01'' JNull]"
    by code_simp
  show ?thesis
    using sortedData_missing_last [OF k n, of NewFirst codeUnitCompare numberText rowsWithMissing]
      k n a b c d
    by blast
qed

subsection \<open>The empty string as a number\<close>

lemma stringToNumber_samples:
  "map stringToNumber
     ['''', ''  '', ''5'', ''50'', ''-12.5'', ''1e3'', ''.5'', ''5.'', ''.'', ''abc'', ''0x1F'',
      ''+0x10'', ''Infinity'', ''-Infinity'', ''12px'', '' 42 '', ''1 2'']
   = [Fin 0, Fin 0, Fin 5, Fin 50, Fin (- (25 / 2)), Fin 1000, Fin (1 / 2), Fin 5, NaN, NaN, Fin 31,
      NaN, PosInf, NegInf, NaN, Fin 42, NaN]"
  by code_simp

text \<open>
  Literals that no double holds are rounded: \<open>2 ^ 53 + 1\<close> to \<open>2 ^ 53\<close>, \<open>2 ^ 53 + 3\<close> to
  \<open>2 ^ 53 + 4\<close>, \<open>0.1\<close> to the double next to it, a literal beyond the largest double to
  \<open>Infinity\<close>.
\<close>

lemma stringToNumber_rounds:
  "map stringToNumber
     [''9007199254740992'', ''9007199254740993'', ''9007199254740995'', ''0.1'', ''1e309'']
   = [Fin 9007199254740992, Fin 9007199254740992, Fin 9007199254740996,
      Fin (3602879701896397 / 36028797018963968), PosInf]"
  by code_simp

lemma subtract_samples:
  "subtract (Fin 0) (Fin 5) = Fin (- 5) \<and> subtract (Fin 5) (Fin 0) = Fin 5 \<and>
   subtract (Fin (2 ^ 53)) (Fin (- 1)) = Fin (2 ^ 53)"
  by code_simp

text \<open>
  Claim C10. The empty string is not \<open>NaN\<close> for the comparator and counts as zero: for
  the collection of a row with amount \<open>"5"\<close> followed by a row with the empty amount, the
  comparator answers \<open>0 - 5\<close> and the ascending sort puts the empty row first, whatever
  \<open>localeCompare\<close> would say and whichever way the sort asks.
\<close>

theorem empty_string_sorts_as_zero:
  "\<not> isNaN (JStr []) \<and>
   toNumber (JStr []) = Fin 0 \<and>
   compareRows lc nts ''CHAN_AMT'' Asc (sampleRow 2 ''BANK02'' (JStr [])) (sampleRow 1 ''BANK01'' (JStr ''5''))
     = Fin (- 5) \<and>
   sortedData engine lc nts \<lparr>key = Some ''CHAN_AMT'', direction = Asc\<rparr>
       [sampleRow 1 ''BANK01'' (JStr ''5''), sampleRow 2 ''BANK02'' (JStr [])]
     = [sampleRow 2 ''BANK02'' (JStr []), sampleRow 1 ''BANK01'' (JStr ''5'')]"
proof -
  have zero: "toNumber (JStr []) = Fin 0"
    by (simp add: stringToNumber_def trim_def)
  have five: "toNumber (JStr ''5'') = Fin 5"
    by code_simp
  have down: "subtract (Fin 0) (Fin 5) = Fin (- 5)"
    by code_simp
  have up: "subtract (Fin 5) (Fin 0) = Fin 5"
    by code_simp
  have cellE: "getCell (sampleRow 2 ''BANK02'' (JStr [])) ''CHAN_AMT'' = JStr []"
    by (simp add: getCell_def getProp_def sampleRow_def)
  have cell5: "getCell (sampleRow 1 ''BANK01'' (JStr ''5'')) ''CHAN_AMT'' = JStr ''5''"
    by (simp add: getCell_def getProp_def sampleRow_def)
  have cmp: "compareRows lc nts ''CHAN_AMT'' Asc (sampleRow 2 ''BANK02'' (JStr []))
               (sampleRow 1 ''BANK01'' (JStr ''5'')) = Fin (- 5)"
    unfolding compareRows_def cellE cell5
    by (simp add: eqNull_def isNaN_def zero five down del: toNumber.simps subtract.simps)
  have up5: "compareRows lc nts ''CHAN_AMT'' Asc (sampleRow 1 ''BANK01'' (JStr ''5''))
               (sampleRow 2 ''BANK02'' (JStr [])) = Fin 5"
    unfolding compareRows_def cellE cell5
    by (simp add: eqNull_def isNaN_def zero five up del: toNumber.simps subtract.simps)
  have sorted: "sortedData engine lc nts \<lparr>key = Some ''CHAN_AMT'', direction = Asc\<rparr>
       [sampleRow 1 ''BANK01'' (JStr ''5''), sampleRow 2 ''BANK02'' (JStr [])]
     = [sampleRow 2 ''BANK02'' (JStr []), sampleRow 1 ''BANK01'' (JStr ''5'')]"
    by (cases engine) (simp_all add: sortedData_def arraySort_def cmp up5)
  show ?thesis
    using zero cmp sorted by (simp add: isNaN_def del: toNumber.simps)
qed

subsection \<open>Toggling the direction\<close>

lemma isNegative_not_isPositive: "isNegative x \<Longrightarrow> \<not> isPositive x"
  by (cases x) auto

lemma strictlyOrders_distinct: "strictlyOrders c xs \<Longrightarrow> distinct xs"
  unfolding strictlyOrders_def by (rule conjunct1)

lemma strictlyOrders_total:
  "strictlyOrders c xs \<Longrightarrow> a \<in> set xs \<Longrightarrow> b \<in> set xs \<Longrightarrow> a \<noteq> b \<Longrightarrow>
     isNegative (c a b) \<and> isPositive (c b a) \<or> isPositive (c a b) \<and> isNegative (c b a)"
  unfolding strictlyOrders_def by blast

lemma strictlyOrders_anti:
  assumes "strictlyOrders c xs" "a \<in> set xs" "b \<in> set xs" "a \<noteq> b"
  shows "isNegative (c a b) \<longleftrightarrow> \<not> isNegative (c b a)"
  using strictlyOrders_total [OF assms] isNegative_not_isPositive [of "c a b"]
    isNegative_not_isPositive [of "c b a"]
  by blast

lemma strictlyOrders_positive:
  assumes "strictlyOrders c xs" "a \<in> set xs" "b \<in> set xs" "a \<noteq> b"
  shows "isPositive (c a b) \<longleftrightarrow> isNegative (c b a)"
  using strictlyOrders_total [OF assms] isNegative_not_isPositive [of "c a b"]
    isNegative_not_isPositive [of "c b a"]
  by blast

lemma strictlyOrders_trans:
  "strictlyOrders c xs \<Longrightarrow> a \<in> set xs \<Longrightarrow> b \<in> set xs \<Longrightarrow> d \<in> set xs \<Longrightarrow>
     isNegative (c a b) \<Longrightarrow> isNegative (c b d) \<Longrightarrow> isNegative (c a d)"
  unfolding strictlyOrders_def by blast

lemma strictlyOrdersI:
  assumes "distinct xs"
    and "\<And>a b. a \<in> set xs \<Longrightarrow> b \<in> set xs \<Longrightarrow> a \<noteq> b \<Longrightarrow>
           isNegative (c a b) \<and> isPositive (c b a) \<or> isPositive (c a b) \<and> isNegative (c b a)"
    and "\<And>a b d. a \<in> set xs \<Longrightarrow> b \<in> set xs \<Longrightarrow> d \<in> set xs \<Longrightarrow>
           isNegative (c a b) \<Longrightarrow> isNegative (c b d) \<Longrightarrow> isNegative (c a d)"
  shows "strictlyOrders c xs"
  unfolding strictlyOrders_def using assms by blast

text \<open>
  A listing of the elements in which every element is put before all later ones, whichever
  way the comparator is asked, shows that the comparator strictly orders them.
\<close>

lemma strictlyOrders_listed:
  assumes xs: "distinct xs" and same: "set ys = set xs"
    and listed: "sorted_wrt (\<lambda>a b. isNegative (c a b) \<and> isPositive (c b a)) ys"
  shows "strictlyOrders c xs"
proof -
  have before: "\<And>i j. i < j \<Longrightarrow> j < length ys \<Longrightarrow>
                  isNegative (c (ys ! i) (ys ! j)) \<and> isPositive (c (ys ! j) (ys ! i))"
    using listed by (simp add: sorted_wrt_iff_nth_less)
  have index: "\<And>a b. a \<in> set xs \<Longrightarrow> b \<in> set xs \<Longrightarrow> a \<noteq> b \<Longrightarrow> isNegative (c a b) \<Longrightarrow>
                 \<exists>i j. i < j \<and> j < length ys \<and> ys ! i = a \<and> ys ! j = b"
  proof -
    fix a b assume a: "a \<in> set xs" and b: "b \<in> set xs" and ab: "a \<noteq> b" and neg: "isNegative (c a b)"
    obtain i where i: "i < length ys" "ys ! i = a" using a same by (metis in_set_conv_nth)
    obtain j where j: "j < length ys" "ys ! j = b" using b same by (metis in_set_conv_nth)
    have "i \<noteq> j" using i j ab by blast
    moreover have "\<not> j < i"
    proof
      assume "j < i"
      then have "isPositive (c a b)" using before [of j i] i j by simp
      then show False using neg isNegative_not_isPositive by blast
    qed
    ultimately have "i < j" by linarith
    then show "\<exists>i j. i < j \<and> j < length ys \<and> ys ! i = a \<and> ys ! j = b" using i j by blast
  qed
  show ?thesis
  proof (rule strictlyOrdersI)
    show "distinct xs" by (rule xs)
  next
    fix a b assume a: "a \<in> set xs" and b: "b \<in> set xs" and ab: "a \<noteq> b"
    obtain i where i: "i < length ys" "ys ! i = a" using a same by (metis in_set_conv_nth)
    obtain j where j: "j < length ys" "ys ! j = b" using b same by (metis in_set_conv_nth)
    have "i \<noteq> j" using i j ab by blast
    then consider "i < j" | "j < i" by linarith
    then show "isNegative (c a b) \<and> isPositive (c b a) \<or> isPositive (c a b) \<and> isNegative (c b a)"
    proof cases
      case 1
      then show ?thesis using before [of i j] i j by simp
    next
      case 2
      then show ?thesis using before [of j i] i j by simp
    qed
  next
    fix a b d assume a: "a \<in> set xs" and b: "b \<in> set xs" and d: "d \<in> set xs"
      and ab: "isNegative (c a b)" and bd: "isNegative (c b d)"
    show "isNegative (c a d)"
    proof (cases "a = b \<or> b = d")
      case True
      then show ?thesis using ab bd by auto
    next
      case False
      then have ne: "a \<noteq> b" "b \<noteq> d" by simp_all
      obtain i j where ij: "i < j" "j < length ys" "ys ! i = a" "ys ! j = b"
        using index [OF a b ne(1) ab] by blast
      obtain j' k where jk: "j' < k" "k < length ys" "ys ! j' = b" "ys ! k = d"
        using index [OF b d ne(2) bd] by blast
      have "\<not> j' < i"
      proof
        assume "j' < i"
        then have "isNegative (c b a)" using before [of j' i] ij jk by simp
        moreover have "isPositive (c b a)" using before [of i j] ij by simp
        ultimately show False using isNegative_not_isPositive by blast
      qed
      moreover have "i \<noteq> j'" using ij jk ne by blast
      ultimately have "i < k" using jk by linarith
      then show ?thesis using before [of i k] ij jk by simp
    qed
  qed
qed

lemma sorted_insertSorted:
  assumes anti: "\<And>a b. a \<in> S \<Longrightarrow> b \<in> S \<Longrightarrow> a \<noteq> b \<Longrightarrow>
                   isNegative (c a b) \<longleftrightarrow> \<not> isNegative (c b a)"
    and trans: "\<And>a b d. a \<in> S \<Longrightarrow> b \<in> S \<Longrightarrow> d \<in> S \<Longrightarrow>
                   isNegative (c a b) \<Longrightarrow> isNegative (c b d) \<Longrightarrow> isNegative (c a d)"
    and x: "x \<in> S"
  shows "set ys \<subseteq> S \<Longrightarrow> x \<notin> set ys \<Longrightarrow> sorted_wrt (\<lambda>a b. isNegative (c a b)) ys \<Longrightarrow>
           sorted_wrt (\<lambda>a b. isNegative (c a b)) (insertSorted c x ys)"
proof (induction ys)
  case Nil
  show ?case by simp
next
  case (Cons y ys)
  have y: "y \<in> S" and ys: "set ys \<subseteq> S" using Cons.prems(1) by simp_all
  have xy: "x \<noteq> y" and xys: "x \<notin> set ys" using Cons.prems(2) by simp_all
  have sy: "\<forall>z \<in> set ys. isNegative (c y z)" and sys: "sorted_wrt (\<lambda>a b. isNegative (c a b)) ys"
    using Cons.prems(3) by simp_all
  show ?case
  proof (cases "isNegative (c x y)")
    case True
    have "\<forall>z \<in> set ys. isNegative (c x z)"
    proof
      fix z assume z: "z \<in> set ys"
      then have "isNegative (c y z)" using sy by blast
      moreover have "z \<in> S" using z ys by blast
      ultimately show "isNegative (c x z)" using True x y by (intro trans [of x y z])
    qed
    then show ?thesis using True Cons.prems(3) by simp
  next
    case False
    then have yx: "isNegative (c y x)" using anti [OF x y xy] by simp
    have "sorted_wrt (\<lambda>a b. isNegative (c a b)) (insertSorted c x ys)"
      by (rule Cons.IH [OF ys xys sys])
    moreover have "\<forall>z \<in> set (insertSorted c x ys). isNegative (c y z)"
      using yx sy by (simp add: set_insertSorted)
    ultimately show ?thesis using False by simp
  qed
qed

lemma sorted_arraySort:
  assumes anti: "\<And>a b. a \<in> S \<Longrightarrow> b \<in> S \<Longrightarrow> a \<noteq> b \<Longrightarrow>
                   isNegative (c a b) \<longleftrightarrow> \<not> isNegative (c b a)"
    and trans: "\<And>a b d. a \<in> S \<Longrightarrow> b \<in> S \<Longrightarrow> d \<in> S \<Longrightarrow>
                   isNegative (c a b) \<Longrightarrow> isNegative (c b d) \<Longrightarrow> isNegative (c a d)"
  shows "set xs \<subseteq> S \<Longrightarrow> distinct xs \<Longrightarrow>
           sorted_wrt (\<lambda>a b. isNegative (c a b)) (arraySort NewFirst c xs)"
proof (induction xs rule: rev_induct)
  case Nil
  show ?case by (simp add: arraySort_Nil)
next
  case (snoc x xs)
  have ih: "sorted_wrt (\<lambda>a b. isNegative (c a b)) (arraySort NewFirst c xs)"
    using snoc.prems by (intro snoc.IH) simp_all
  have new: "x \<notin> set (arraySort NewFirst c xs)"
    using snoc.prems(2) by (simp add: set_arraySort)
  have x: "x \<in> S" using snoc.prems(1) by simp
  have sub: "set (arraySort NewFirst c xs) \<subseteq> S" using snoc.prems(1) by (simp add: set_arraySort)
  have "sorted_wrt (\<lambda>a b. isNegative (c a b)) (insertSorted c x (arraySort NewFirst c xs))"
    by (rule sorted_insertSorted [where S = S, OF anti trans x sub new ih])
  then show ?case by (simp add: arraySort_snoc)
qed

lemma sorted_wrt_unique:
  assumes asym: "\<And>a b. a \<in> S \<Longrightarrow> b \<in> S \<Longrightarrow> a \<noteq> b \<Longrightarrow> R a b \<Longrightarrow> R b a \<Longrightarrow> False"
  shows "set as \<subseteq> S \<Longrightarrow> set as = set bs \<Longrightarrow> distinct as \<Longrightarrow> distinct bs \<Longrightarrow>
           sorted_wrt R as \<Longrightarrow> sorted_wrt R bs \<Longrightarrow> as = bs"
proof (induction as arbitrary: bs)
  case Nil
  then show ?case by simp
next
  case (Cons a as)
  then obtain b bs' where bs: "bs = b # bs'" by (cases bs) auto
  have ab: "a = b"
  proof (rule ccontr)
    assume ne: "a \<noteq> b"
    have "a \<in> set bs'" using Cons.prems(2) ne bs by auto
    then have ba: "R b a" using Cons.prems(6) bs by simp
    have bas: "b \<in> set as" using Cons.prems(2) ne bs by auto
    then have ab: "R a b" using Cons.prems(5) by simp
    have "a \<in> S" "b \<in> S" using Cons.prems(1) bas by auto
    then show False using asym ne ab ba by blast
  qed
  have sets: "set as = set bs'"
  proof -
    have "set as = set (a # as) - {a}" using Cons.prems(3) by simp
    also have "\<dots> = set (b # bs') - {b}" using Cons.prems(2) bs ab by simp
    also have "\<dots> = set bs'" using Cons.prems(4) bs by simp
    finally show ?thesis .
  qed
  have "as = bs'"
    using Cons.prems bs sets by (intro Cons.IH) simp_all
  with ab bs show ?case by simp
qed

text \<open>Under a comparator that strictly orders the list, asking the other way round reverses the result.\<close>

lemma arraySort_flip_rev:
  assumes strict: "strictlyOrders c xs"
  shows "arraySort NewFirst (\<lambda>a b. c b a) xs = rev (arraySort NewFirst c xs)"
proof -
  define cF where "cF = (\<lambda>a b. c b a)"
  have d: "distinct xs" by (rule strictlyOrders_distinct [OF strict])
  have sF: "sorted_wrt (\<lambda>a b. isNegative (cF a b)) (arraySort NewFirst cF xs)"
  proof (rule sorted_arraySort [where S = "set xs"])
    fix a b assume "a \<in> set xs" "b \<in> set xs" "a \<noteq> b"
    then show "isNegative (cF a b) \<longleftrightarrow> \<not> isNegative (cF b a)"
      using strictlyOrders_anti [OF strict, of b a] by (auto simp: cF_def)
  next
    fix a b e assume "a \<in> set xs" "b \<in> set xs" "e \<in> set xs"
      and "isNegative (cF a b)" "isNegative (cF b e)"
    then show "isNegative (cF a e)"
      using strictlyOrders_trans [OF strict, of e b a] by (simp add: cF_def)
  next
    show "set xs \<subseteq> set xs" by simp
  next
    show "distinct xs" by (rule d)
  qed
  then have s1: "sorted_wrt (\<lambda>a b. isNegative (c a b)) (rev (arraySort NewFirst cF xs))"
    by (simp add: sorted_wrt_rev cF_def)
  have s2: "sorted_wrt (\<lambda>a b. isNegative (c a b)) (arraySort NewFirst c xs)"
  proof (rule sorted_arraySort [where S = "set xs"])
    fix a b assume "a \<in> set xs" "b \<in> set xs" "a \<noteq> b"
    then show "isNegative (c a b) \<longleftrightarrow> \<not> isNegative (c b a)"
      by (rule strictlyOrders_anti [OF strict])
  next
    fix a b e assume "a \<in> set xs" "b \<in> set xs" "e \<in> set xs"
      and "isNegative (c a b)" "isNegative (c b e)"
    then show "isNegative (c a e)"
      by (rule strictlyOrders_trans [OF strict])
  next
    show "set xs \<subseteq> set xs" by simp
  next
    show "distinct xs" by (rule d)
  qed
  have d1: "distinct (rev (arraySort NewFirst cF xs))" and d2: "distinct (arraySort NewFirst c xs)"
    using d by (simp_all add: distinct_arraySort)
  have "rev (arraySort NewFirst cF xs) = arraySort NewFirst c xs"
  proof (rule sorted_wrt_unique [where S = "set xs" and R = "\<lambda>a b. isNegative (c a b)",
          OF _ _ _ d1 d2 s1 s2])
    fix a b assume "a \<in> set xs" "b \<in> set xs" "a \<noteq> b" "isNegative (c a b)" "isNegative (c b a)"
    then show False using strictlyOrders_anti [OF strict, of a b] by simp
  next
    show "set (rev (arraySort NewFirst cF xs)) \<subseteq> set xs" by (simp add: set_arraySort)
  next
    show "set (rev (arraySort NewFirst cF xs)) = set (arraySort NewFirst c xs)"
      by (simp add: set_arraySort)
  qed
  then have "arraySort NewFirst cF xs = rev (arraySort NewFirst c xs)" by (simp add: rev_swap)
  then show ?thesis by (simp add: cF_def)
qed

text \<open>Both sorts agree under a comparator that strictly orders the list.\<close>

lemma arraySort_engines_agree:
  assumes strict: "strictlyOrders c xs"
  shows "arraySort engine c xs = arraySort NewFirst c xs"
proof (cases engine)
  case NewFirst
  then show ?thesis by simp
next
  case PlacedFirst
  have "arraySort NewFirst (\<lambda>x y. if isPositive (c y x) then Fin 1 else Fin (- 1)) xs
          = arraySort NewFirst (\<lambda>a b. c b a) xs"
  proof (rule arraySort_cong [OF strictlyOrders_distinct [OF strict]], intro ballI impI)
    fix a b assume "a \<in> set xs" "b \<in> set xs" "a \<noteq> b"
    then show "isNegative (if isPositive (c b a) then Fin 1 else Fin (- 1)) = isNegative (c b a)"
      using strictlyOrders_total [OF strict, of b a] isNegative_not_isPositive [of "c b a"]
      by auto
  qed
  then have "arraySort PlacedFirst c xs = rev (arraySort NewFirst (\<lambda>a b. c b a) xs)"
    by (simp add: arraySort_PlacedFirst)
  then show ?thesis
    using PlacedFirst by (simp add: arraySort_flip_rev [OF strict])
qed

lemma strictlyOrders_flip:
  assumes strict: "strictlyOrders c xs"
    and flip: "\<And>a b. a \<in> set xs \<Longrightarrow> b \<in> set xs \<Longrightarrow> c' a b = c b a"
  shows "strictlyOrders c' xs"
proof (rule strictlyOrdersI)
  show "distinct xs" by (rule strictlyOrders_distinct [OF strict])
next
  fix a b assume "a \<in> set xs" "b \<in> set xs" "a \<noteq> b"
  then show "isNegative (c' a b) \<and> isPositive (c' b a) \<or> isPositive (c' a b) \<and> isNegative (c' b a)"
    using strictlyOrders_total [OF strict, of b a] by (auto simp: flip)
next
  fix a b d assume "a \<in> set xs" "b \<in> set xs" "d \<in> set xs"
    and "isNegative (c' a b)" "isNegative (c' b d)"
  then show "isNegative (c' a d)"
    using strictlyOrders_trans [OF strict, of d b a] by (simp add: flip)
qed

lemma compareRows_Desc_flip:
  "\<not> eqNull (getCell a k) \<Longrightarrow> \<not> eqNull (getCell b k) \<Longrightarrow>
     compareRows lc nts k Desc a b = compareRows lc nts k Asc b a"
  by (auto simp: compareRows_def Let_def)

lemma arraySort_Desc_rev:
  assumes present: "\<forall>r \<in> set xs. \<not> eqNull (getCell r k)"
    and strict: "strictlyOrders (compareRows lc nts k Asc) xs"
  shows "arraySort engine (compareRows lc nts k Desc) xs
           = rev (arraySort engine (compareRows lc nts k Asc) xs)"
proof -
  have flip: "\<And>a b. a \<in> set xs \<Longrightarrow> b \<in> set xs \<Longrightarrow>
                compareRows lc nts k Desc a b = compareRows lc nts k Asc b a"
    using present by (simp add: compareRows_Desc_flip)
  have strictD: "strictlyOrders (compareRows lc nts k Desc) xs"
    by (rule strictlyOrders_flip [OF strict flip])
  have "arraySort NewFirst (compareRows lc nts k Desc) xs
          = arraySort NewFirst (\<lambda>a b. compareRows lc nts k Asc b a) xs"
    by (rule arraySort_cong [OF strictlyOrders_distinct [OF strict]]) (simp add: flip)
  then have "arraySort NewFirst (compareRows lc nts k Desc) xs
          = rev (arraySort NewFirst (compareRows lc nts k Asc) xs)"
    by (simp add: arraySort_flip_rev [OF strict])
  then show ?thesis
    by (simp only: arraySort_engines_agree [OF strict, of engine]
          arraySort_engines_agree [OF strictD, of engine])
qed

lemma sortConfig_handleSort:
  "sortConfig (handleSort header st)
     = \<lparr>key = Some header,
        direction = (if key (sortConfig st) = Some header \<and> direction (sortConfig st) = Asc
                     then Desc else Asc)\<rparr>"
  by (simp add: handleSort_def)

lemma mset_sortedData: "mset (sortedData engine lc nts cfg filtered) = mset filtered"
  by (simp add: sortedData_def mset_arraySort split: option.split)

text \<open>
  Claim C2, as amended. Two clicks in a row on the header of a column give two sorts in
  opposite directions. The second sort always holds the same rows as the first, each as
  often; and it is the first one reversed whenever no row of the collection lacks a value in
  the column and the ascending comparator strictly orders the collection, which leaves no
  tie: two values that are equal as doubles, be it after rounding, are one. This holds for
  both sorts.
\<close>

theorem sort_twice_reverses:
  "mset (sortedData engine lc nts (sortConfig (handleSort header (handleSort header st))) filtered)
     = mset (sortedData engine lc nts (sortConfig (handleSort header st)) filtered) \<and>
   (header \<noteq> [] \<and> (\<forall>r \<in> set filtered. \<not> eqNull (getCell r header)) \<and>
    strictlyOrders (compareRows lc nts header Asc) filtered \<longrightarrow>
      sortedData engine lc nts (sortConfig (handleSort header (handleSort header st))) filtered
        = rev (sortedData engine lc nts (sortConfig (handleSort header st)) filtered))"
proof (rule conjI)
  show "mset (sortedData engine lc nts (sortConfig (handleSort header (handleSort header st))) filtered)
     = mset (sortedData engine lc nts (sortConfig (handleSort header st)) filtered)"
    by (simp only: mset_sortedData)
next
  show "header \<noteq> [] \<and> (\<forall>r \<in> set filtered. \<not> eqNull (getCell r header)) \<and>
    strictlyOrders (compareRows lc nts header Asc) filtered \<longrightarrow>
      sortedData engine lc nts (sortConfig (handleSort header (handleSort header st))) filtered
        = rev (sortedData engine lc nts (sortConfig (handleSort header st)) filtered)"
  proof
    assume h: "header \<noteq> [] \<and> (\<forall>r \<in> set filtered. \<not> eqNull (getCell r header)) \<and>
      strictlyOrders (compareRows lc nts header Asc) filtered"
    then have ne: "header \<noteq> []"
      and present: "\<forall>r \<in> set filtered. \<not> eqNull (getCell r header)"
      and strict: "strictlyOrders (compareRows lc nts header Asc) filtered"
      by blast+
    have flip: "arraySort engine (compareRows lc nts header Desc) filtered
                  = rev (arraySort engine (compareRows lc nts header Asc) filtered)"
      by (rule arraySort_Desc_rev [OF present strict])
    show "sortedData engine lc nts (sortConfig (handleSort header (handleSort header st))) filtered
        = rev (sortedData engine lc nts (sortConfig (handleSort header st)) filtered)"
    proof (cases "key (sortConfig st) = Some header \<and> direction (sortConfig st) = Asc")
      case True
      then show ?thesis using ne flip by (simp add: sortConfig_handleSort sortedData_def)
    next
      case False
      then show ?thesis using ne flip by (simp add: sortConfig_handleSort sortedData_def)
    qed
  qed
qed

text \<open>
  The claim as first stated has no condition. With a tie both sorts keep the tied rows in
  table order in both directions, so the second sort is not the first one reversed.
\<close>

lemma cfg_once:
  "sortConfig (handleSort ''CHAN_AMT'' (initialState d)) = \<lparr>key = Some ''CHAN_AMT'', direction = Asc\<rparr>"
  by (simp add: handleSort_def initialState_def)

lemma cfg_twice:
  "sortConfig (handleSort ''CHAN_AMT'' (handleSort ''CHAN_AMT'' (initialState d)))
     = \<lparr>key = Some ''CHAN_AMT'', direction = Desc\<rparr>"
  by (simp add: handleSort_def initialState_def)

lemma tied_asc:
  "sortedData NewFirst codeUnitCompare numberText \<lparr>key = Some ''CHAN_AMT'', direction = Asc\<rparr> tiedRows
     = [sampleRow 2 ''BANK02'' (JStr ''50''), sampleRow 1 ''BANK01'' (JStr ''500''),
        sampleRow 3 ''BANK03'' (JStr ''500'')] \<and>
   sortedData PlacedFirst codeUnitCompare numberText \<lparr>key = Some ''CHAN_AMT'', direction = Asc\<rparr> tiedRows
     = [sampleRow 2 ''BANK02'' (JStr ''50''), sampleRow 1 ''BANK01'' (JStr ''500''),
        sampleRow 3 ''BANK03'' (JStr ''500'')]"
  by code_simp

lemma tied_desc:
  "sortedData NewFirst codeUnitCompare numberText \<lparr>key = Some ''CHAN_AMT'', direction = Desc\<rparr> tiedRows
     = [sampleRow 1 ''BANK01'' (JStr ''500''), sampleRow 3 ''BANK03'' (JStr ''500''),
        sampleRow 2 ''BANK02'' (JStr ''50'')] \<and>
   sortedData PlacedFirst codeUnitCompare numberText \<lparr>key = Some ''CHAN_AMT'', direction = Desc\<rparr> tiedRows
     = [sampleRow 1 ''BANK01'' (JStr ''500''), sampleRow 3 ''BANK03'' (JStr ''500''),
        sampleRow 2 ''BANK02'' (JStr ''50'')]"
  by code_simp

theorem sort_twice_counterexample:
  "sortedData NewFirst codeUnitCompare numberText
       (sortConfig (handleSort ''CHAN_AMT'' (initialState tiedRows))) tiedRows
     = [sampleRow 2 ''BANK02'' (JStr ''50''), sampleRow 1 ''BANK01'' (JStr ''500''),
        sampleRow 3 ''BANK03'' (JStr ''500'')] \<and>
   sortedData NewFirst codeUnitCompare numberText
       (sortConfig (handleSort ''CHAN_AMT'' (handleSort ''CHAN_AMT'' (initialState tiedRows)))) tiedRows
     = [sampleRow 1 ''BANK01'' (JStr ''500''), sampleRow 3 ''BANK03'' (JStr ''500''),
        sampleRow 2 ''BANK02'' (JStr ''50'')] \<and>
   sortedData NewFirst codeUnitCompare numberText
       (sortConfig (handleSort ''CHAN_AMT'' (handleSort ''CHAN_AMT'' (initialState tiedRows)))) tiedRows
     \<noteq> rev (sortedData NewFirst codeUnitCompare numberText
              (sortConfig (handleSort ''CHAN_AMT'' (initialState tiedRows))) tiedRows) \<and>
   sortedData PlacedFirst codeUnitCompare numberText
       (sortConfig (handleSort ''CHAN_AMT'' (handleSort ''CHAN_AMT'' (initialState tiedRows)))) tiedRows
     \<noteq> rev (sortedData PlacedFirst codeUnitCompare numberText
              (sortConfig (handleSort ''CHAN_AMT'' (initialState tiedRows))) tiedRows)"
  unfolding cfg_once cfg_twice
  by (simp add: tied_asc tied_desc) (simp add: sampleRow_def)

text \<open>
  Two amounts that differ as texts and round to the same double are such a tie: the
  comparator answers \<open>0\<close> for them.
\<close>

lemma compareRows_rounding_tie:
  "compareRows codeUnitCompare numberText ''CHAN_AMT'' Asc
     (sampleRow 1 ''BANK01'' (JStr ''9007199254740993''))
     (sampleRow 2 ''BANK02'' (JStr ''9007199254740992'')) = Fin 0 \<and>
   \<not> strictlyOrders (compareRows codeUnitCompare numberText ''CHAN_AMT'' Asc)
       [sampleRow 1 ''BANK01'' (JStr ''9007199254740993''),
        sampleRow 2 ''BANK02'' (JStr ''9007199254740992'')]"
proof -
  have tie: "compareRows codeUnitCompare numberText ''CHAN_AMT'' Asc
     (sampleRow 1 ''BANK01'' (JStr ''9007199254740993''))
     (sampleRow 2 ''BANK02'' (JStr ''9007199254740992'')) = Fin 0"
    by code_simp
  have ne: "sampleRow 1 ''BANK01'' (JStr ''9007199254740993'')
              \<noteq> sampleRow 2 ''BANK02'' (JStr ''9007199254740992'')"
    by (simp add: sampleRow_def)
  have "\<not> strictlyOrders (compareRows codeUnitCompare numberText ''CHAN_AMT'' Asc)
       [sampleRow 1 ''BANK01'' (JStr ''9007199254740993''),
        sampleRow 2 ''BANK02'' (JStr ''9007199254740992'')]"
  proof
    assume s: "strictlyOrders (compareRows codeUnitCompare numberText ''CHAN_AMT'' Asc)
       [sampleRow 1 ''BANK01'' (JStr ''9007199254740993''),
        sampleRow 2 ''BANK02'' (JStr ''9007199254740992'')]"
    show False
      using strictlyOrders_total [OF s _ _ ne] by (simp add: tie)
  qed
  with tie show ?thesis by blast
qed

lemma exampleState_data:
  "data exampleState
     = [sampleRow 1 ''BANK01'' (JStr ''500''), sampleRow 2 ''BANK02'' (JStr ''50''),
        sampleRow 3 ''BANK03'' (JStr ''1000'')]"
  by (simp add: exampleState_def initialState_def)

lemma exampleState_strict:
  "strictlyOrders (compareRows codeUnitCompare numberText ''CHAN_AMT'' Asc) (data exampleState)"
proof (rule strictlyOrders_listed)
  show "distinct (data exampleState)"
    unfolding exampleState_data by (simp add: sampleRow_def)
next
  show "set [sampleRow 2 ''BANK02'' (JStr ''50''), sampleRow 1 ''BANK01'' (JStr ''500''),
             sampleRow 3 ''BANK03'' (JStr ''1000'')] = set (data exampleState)"
    unfolding exampleState_data by auto
next
  show "sorted_wrt (\<lambda>a b. isNegative (compareRows codeUnitCompare numberText ''CHAN_AMT'' Asc a b) \<and>
                          isPositive (compareRows codeUnitCompare numberText ''CHAN_AMT'' Asc b a))
          [sampleRow 2 ''BANK02'' (JStr ''50''), sampleRow 1 ''BANK01'' (JStr ''500''),
           sampleRow 3 ''BANK03'' (JStr ''1000'')]"
    by code_simp
qed

theorem sort_twice_reverses_witness:
  "''CHAN_AMT'' \<noteq> [] \<and>
   list_all (\<lambda>r. \<not> eqNull (getCell r ''CHAN_AMT'')) (data exampleState) \<and>
   strictlyOrders (compareRows codeUnitCompare numberText ''CHAN_AMT'' Asc) (data exampleState) \<and>
   sortedData NewFirst codeUnitCompare numberText
       (sortConfig (handleSort ''CHAN_AMT'' exampleState)) (data exampleState)
     = [sampleRow 2 ''BANK02'' (JStr ''50''), sampleRow 1 ''BANK01'' (JStr ''500''),
        sampleRow 3 ''BANK03'' (JStr ''1000'')] \<and>
   sortedData NewFirst codeUnitCompare numberText
       (sortConfig (handleSort ''CHAN_AMT'' (handleSort ''CHAN_AMT'' exampleState))) (data exampleState)
     = [sampleRow 3 ''BANK03'' (JStr ''1000''), sampleRow 1 ''BANK01'' (JStr ''500''),
        sampleRow 2 ''BANK02'' (JStr ''50'')]"
proof -
  have ne: "''CHAN_AMT'' \<noteq> []" by simp
  have present: "\<forall>r \<in> set (data exampleState). \<not> eqNull (getCell r ''CHAN_AMT'')"
  proof -
    have "list_all (\<lambda>r. \<not> eqNull (getCell r ''CHAN_AMT''))
            [sampleRow 1 ''BANK01'' (JStr ''500''), sampleRow 2 ''BANK02'' (JStr ''50''),
             sampleRow 3 ''BANK03'' (JStr ''1000'')]"
      by code_simp
    then show ?thesis by (simp only: exampleState_data list_all_iff)
  qed
  have strict: "strictlyOrders (compareRows codeUnitCompare numberText ''CHAN_AMT'' Asc) (data exampleState)"
    by (rule exampleState_strict)
  have cfg: "sortConfig (handleSort ''CHAN_AMT'' exampleState)
               = \<lparr>key = Some ''CHAN_AMT'', direction = Asc\<rparr>"
    by (simp add: handleSort_def exampleState_def initialState_def)
  have "sortedData NewFirst codeUnitCompare numberText \<lparr>key = Some ''CHAN_AMT'', direction = Asc\<rparr>
          [sampleRow 1 ''BANK01'' (JStr ''500''), sampleRow 2 ''BANK02'' (JStr ''50''),
           sampleRow 3 ''BANK03'' (JStr ''1000'')]
     = [sampleRow 2 ''BANK02'' (JStr ''50''), sampleRow 1 ''BANK01'' (JStr ''500''),
        sampleRow 3 ''BANK03'' (JStr ''1000'')]"
    by code_simp
  then have once: "sortedData NewFirst codeUnitCompare numberText
       (sortConfig (handleSort ''CHAN_AMT'' exampleState)) (data exampleState)
     = [sampleRow 2 ''BANK02'' (JStr ''50''), sampleRow 1 ''BANK01'' (JStr ''500''),
        sampleRow 3 ''BANK03'' (JStr ''1000'')]"
    by (simp only: cfg exampleState_data)
  have "sortedData NewFirst codeUnitCompare numberText
       (sortConfig (handleSort ''CHAN_AMT'' (handleSort ''CHAN_AMT'' exampleState))) (data exampleState)
     = rev (sortedData NewFirst codeUnitCompare numberText
       (sortConfig (handleSort ''CHAN_AMT'' exampleState)) (data exampleState))"
    using sort_twice_reverses
        [of NewFirst codeUnitCompare numberText "''CHAN_AMT''" exampleState "data exampleState"]
      ne present strict
    by blast
  then have twice: "sortedData NewFirst codeUnitCompare numberText
       (sortConfig (handleSort ''CHAN_AMT'' (handleSort ''CHAN_AMT'' exampleState))) (data exampleState)
     = [sampleRow 3 ''BANK03'' (JStr ''1000''), sampleRow 1 ''BANK01'' (JStr ''500''),
        sampleRow 2 ''BANK02'' (JStr ''50'')]"
    by (simp only: once rev.simps append.simps)
  show ?thesis
    using ne present strict once twice by (simp only: list_all_iff) blast
qed

end
